theory Spec2Isabelle
  imports Main "HOL-Library.Word"
begin

section \<open>Data model (AvantDigitalRead.h)\<close>

text \<open>
  The library targets 32-bit Arduino cores, where \<^verbatim>\<open>unsigned long\<close> has 32 bits:
  every time stamp, delay and duration is a 32-bit word, and \<open>-\<close> on it wraps around
  as the unsigned subtraction of the source does. Comparisons on words are unsigned.
\<close>

type_synonym ulong = "32 word"

definition DEFAULT_MIN_PRESS_MS :: ulong where "DEFAULT_MIN_PRESS_MS = 50"
definition DEFAULT_MAX_PRESS_MS :: ulong where "DEFAULT_MAX_PRESS_MS = 300"
definition DEFAULT_MAX_INTERVAL_MS :: ulong where "DEFAULT_MAX_INTERVAL_MS = 300"
definition DEFAULT_PRESS_DURATION_MS :: ulong where "DEFAULT_PRESS_DURATION_MS = 1000"
definition DEFAULT_REPEAT_LONG_PRESS :: bool where "DEFAULT_REPEAT_LONG_PRESS = False"
definition DEFAULT_DEBOUNCE_TIME :: ulong where "DEFAULT_DEBOUNCE_TIME = 50"

text \<open>
  \<^verbatim>\<open>enum PinState\<close> is an unscoped enumeration: the code compares it with the
  \<^verbatim>\<open>int\<close> that \<^verbatim>\<open>digitalRead\<close> returns and casts that \<^verbatim>\<open>int\<close> to it. A pin state is
  therefore the integer value of the enumerator.
\<close>

type_synonym PinState = int

definition PIN_LOW :: PinState where "PIN_LOW = 0"
definition PIN_HIGH :: PinState where "PIN_HIGH = 1"
definition PIN_UNINITIALIZED :: PinState where "PIN_UNINITIALIZED = - 1"
definition PIN_ERROR :: PinState where "PIN_ERROR = - 2"

datatype EventType =
    EVENT_CHANGE
  | EVENT_RISING
  | EVENT_FALLING
  | EVENT_SINGLE_PRESS
  | EVENT_DOUBLE_PRESS
  | EVENT_LONG_PRESS

text \<open>
  \<^verbatim>\<open>PinCallback\<close> is a function pointer. \<open>None\<close> is \<^verbatim>\<open>nullptr\<close>, \<open>Some a\<close> the function at
  address \<open>a\<close>. What the user's function does is outside the library: a call is recorded,
  with its five arguments, in the list \<open>invoked\<close> of the object's state. The model takes
  a callback not to call back into the library while it runs.
\<close>

type_synonym PinCallback = "nat option"

record Invocation =
  fn :: PinCallback
  argPin :: int
  argNewState :: PinState
  argOldState :: PinState
  argEvent :: EventType
  argTimestamp :: ulong

text \<open>\<^verbatim>\<open>struct DelayedCallback\<close>; its field \<^verbatim>\<open>pin\<close> is \<open>cbPin\<close> here.\<close>

record DelayedCallback =
  callback :: PinCallback
  cbPin :: int
  newState :: PinState
  oldState :: PinState
  event :: EventType
  timestamp :: ulong
  delayMs :: ulong
  executed :: bool

text \<open>\<^verbatim>\<open>struct PinInfo\<close>.\<close>

record PinInfo =
  pin :: int
  mode :: int
  currentState :: PinState
  lastState :: PinState
  lastDebounceTime :: ulong
  debounceTime :: ulong
  eventsEnabled :: bool
  onChangeCallback :: PinCallback
  onChangeDelay :: ulong
  onRisingCallback :: PinCallback
  onRisingDelay :: ulong
  onFallingCallback :: PinCallback
  onFallingDelay :: ulong
  onSinglePressCallback :: PinCallback
  onSinglePressDelay :: ulong
  onDoublePressCallback :: PinCallback
  onDoublePressDelay :: ulong
  onLongPressCallback :: PinCallback
  onLongPressDelay :: ulong
  minPressMs :: ulong
  maxPressMs :: ulong
  maxIntervalMs :: ulong
  pressDurationMs :: ulong
  repeatLongPress :: bool
  pressStartTime :: ulong
  releaseTime :: ulong
  lastClickTime :: ulong
  clickCount :: int
  longPressTriggered :: bool

text \<open>
  \<^verbatim>\<open>class AvantDigitalRead\<close>: the two vectors, and the record of the callback calls made
  so far (oldest first). \<^verbatim>\<open>clickCount\<close> is a C++ \<^verbatim>\<open>int\<close> that is only incremented and
  reset; it is an unbounded integer here (its overflow is undefined in the source).
\<close>

record AvantDigitalRead =
  pinList :: "PinInfo list"
  delayedCallbacks :: "DelayedCallback list"
  invoked :: "Invocation list"

definition AvantDigitalRead_init :: AvantDigitalRead where
  "AvantDigitalRead_init = \<lparr>pinList = [], delayedCallbacks = [], invoked = []\<rparr>"

section \<open>Private helpers (AvantDigitalRead.cpp)\<close>

text \<open>
  \<^verbatim>\<open>findPin\<close> returns a pointer to the first record of the pin, or \<^verbatim>\<open>nullptr\<close>: here the
  index of that record in the list, or \<open>None\<close>.
\<close>

fun findPin :: "PinInfo list \<Rightarrow> int \<Rightarrow> nat option" where
  "findPin [] p = None"
| "findPin (pinInfo # rest) p =
     (if pin pinInfo = p then Some 0 else map_option Suc (findPin rest p))"

definition triggerCallback ::
  "PinCallback \<Rightarrow> int \<Rightarrow> PinState \<Rightarrow> PinState \<Rightarrow> EventType \<Rightarrow> ulong \<Rightarrow> ulong
     \<Rightarrow> AvantDigitalRead \<Rightarrow> AvantDigitalRead" where
  "triggerCallback cb p newSt oldSt ev ts delay s =
     (if cb = None then s
      else if delay = 0 then
        s\<lparr>invoked := invoked s @
          [\<lparr>fn = cb, argPin = p, argNewState = newSt, argOldState = oldSt,
            argEvent = ev, argTimestamp = ts\<rparr>]\<rparr>
      else
        s\<lparr>delayedCallbacks := delayedCallbacks s @
          [\<lparr>callback = cb, cbPin = p, newState = newSt, oldState = oldSt,
            event = ev, timestamp = ts, delayMs = delay, executed = False\<rparr>]\<rparr>)"

text \<open>
  The first loop of \<^verbatim>\<open>processDelayedCallbacks\<close>: it walks the vector once, moves every
  entry that is due to \<^verbatim>\<open>readyCallbacks\<close> and erases it. The result is the pair of the
  ready entries and of those that stay, both in their order.
\<close>

fun scanDelayed :: "ulong \<Rightarrow> DelayedCallback list \<Rightarrow> DelayedCallback list \<times> DelayedCallback list" where
  "scanDelayed currentTime [] = ([], [])"
| "scanDelayed currentTime (it # rest) =
     (let (ready, kept) = scanDelayed currentTime rest
      in if \<not> executed it \<and> currentTime - timestamp it \<ge> delayMs it
         then (it # ready, kept)
         else (ready, it # kept))"

definition invokeReady :: "ulong \<Rightarrow> DelayedCallback \<Rightarrow> Invocation" where
  "invokeReady currentTime cb =
     \<lparr>fn = callback cb, argPin = cbPin cb, argNewState = newState cb,
      argOldState = oldState cb, argEvent = event cb, argTimestamp = currentTime\<rparr>"

definition processDelayedCallbacks :: "ulong \<Rightarrow> AvantDigitalRead \<Rightarrow> AvantDigitalRead" where
  "processDelayedCallbacks currentTime s =
     (let (readyCallbacks, kept) = scanDelayed currentTime (delayedCallbacks s)
      in s\<lparr>delayedCallbacks := kept,
           invoked := invoked s @ map (invokeReady currentTime) readyCallbacks\<rparr>)"

subsection \<open>Gesture detection\<close>

text \<open>
  \<^verbatim>\<open>detectButtonGestures\<close> is three blocks in a row after the test of \<^verbatim>\<open>eventsEnabled\<close>
  (long press, click on release, single-press timeout); each block is a definition here. The pin record is passed and returned by value, the
  object's state is threaded through the calls of \<^verbatim>\<open>triggerCallback\<close>.
  \<open>fireSinglePress\<close> is the statement
  \<^verbatim>\<open>if (onSinglePressCallback != nullptr) triggerCallback(onSinglePressCallback, ...)\<close>,
  which the source writes out three times.
\<close>

definition longPressCheck :: "PinInfo \<Rightarrow> ulong \<Rightarrow> AvantDigitalRead \<Rightarrow> PinInfo \<times> AvantDigitalRead" where
  "longPressCheck pinInfo currentTime s =
     (if currentState pinInfo = PIN_LOW \<and> onLongPressCallback pinInfo \<noteq> None then
        (if currentTime - pressStartTime pinInfo \<ge> pressDurationMs pinInfo then
           (if repeatLongPress pinInfo \<or> \<not> longPressTriggered pinInfo then
              (pinInfo\<lparr>longPressTriggered := True\<rparr>,
               triggerCallback (onLongPressCallback pinInfo) (pin pinInfo)
                 (currentState pinInfo) (currentState pinInfo) EVENT_LONG_PRESS
                 currentTime (onLongPressDelay pinInfo) s)
            else (pinInfo, s))
         else (pinInfo, s))
      else (pinInfo\<lparr>longPressTriggered := False\<rparr>, s))"

definition fireSinglePress :: "PinInfo \<Rightarrow> ulong \<Rightarrow> AvantDigitalRead \<Rightarrow> AvantDigitalRead" where
  "fireSinglePress pinInfo currentTime s =
     (if onSinglePressCallback pinInfo \<noteq> None then
        triggerCallback (onSinglePressCallback pinInfo) (pin pinInfo)
          (currentState pinInfo) (currentState pinInfo) EVENT_SINGLE_PRESS
          currentTime (onSinglePressDelay pinInfo) s
      else s)"

text \<open>
  The second block. \<open>classifyClick\<close> is its inner decision (a valid press was released:
  double press, single press, or wait); \<open>clickCheck\<close> is the block, with the two
  assignments that end it (\<^verbatim>\<open>lastClickTime = currentTime\<close> after a valid click,
  \<^verbatim>\<open>pressStartTime = 0\<close> on every path) written on each path.
\<close>

definition classifyClick :: "PinInfo \<Rightarrow> ulong \<Rightarrow> AvantDigitalRead \<Rightarrow> PinInfo \<times> AvantDigitalRead" where
  "classifyClick pinInfo currentTime s =
     (if clickCount pinInfo = 2 \<and> onDoublePressCallback pinInfo \<noteq> None then
        (if currentTime - lastClickTime pinInfo \<le> maxIntervalMs pinInfo then
           (pinInfo\<lparr>clickCount := 0\<rparr>,
            triggerCallback (onDoublePressCallback pinInfo) (pin pinInfo)
              (currentState pinInfo) (currentState pinInfo) EVENT_DOUBLE_PRESS
              currentTime (onDoublePressDelay pinInfo) s)
         else
           (pinInfo\<lparr>clickCount := 1\<rparr>, fireSinglePress pinInfo currentTime s))
      else if clickCount pinInfo = 1 then
        (if onDoublePressCallback pinInfo = None then
           (pinInfo\<lparr>clickCount := 0\<rparr>, fireSinglePress pinInfo currentTime s)
         else (pinInfo, s))
      else (pinInfo, s))"

definition clickCheck :: "PinInfo \<Rightarrow> ulong \<Rightarrow> AvantDigitalRead \<Rightarrow> PinInfo \<times> AvantDigitalRead" where
  "clickCheck pinInfo currentTime s =
     (if currentState pinInfo = PIN_HIGH \<and> pressStartTime pinInfo > 0 then
        (let pressDuration = currentTime - pressStartTime pinInfo
         in if pressDuration \<ge> minPressMs pinInfo \<and> pressDuration \<le> maxPressMs pinInfo then
              (let (p1, s1) = classifyClick pinInfo currentTime s
               in (p1\<lparr>lastClickTime := currentTime, pressStartTime := 0\<rparr>, s1))
            else if pressDuration > maxPressMs pinInfo then
              (pinInfo\<lparr>clickCount := 0, pressStartTime := 0\<rparr>, s)
            else (pinInfo\<lparr>pressStartTime := 0\<rparr>, s))
      else (pinInfo, s))"

definition singlePressTimeout :: "PinInfo \<Rightarrow> ulong \<Rightarrow> AvantDigitalRead \<Rightarrow> PinInfo \<times> AvantDigitalRead" where
  "singlePressTimeout pinInfo currentTime s =
     (if currentState pinInfo = PIN_HIGH \<and> clickCount pinInfo = 1 \<and>
         onDoublePressCallback pinInfo \<noteq> None \<and> pressStartTime pinInfo = 0 then
        (if currentTime - lastClickTime pinInfo > maxIntervalMs pinInfo then
           (pinInfo\<lparr>clickCount := 0\<rparr>, fireSinglePress pinInfo currentTime s)
         else (pinInfo, s))
      else (pinInfo, s))"

definition detectButtonGestures :: "PinInfo \<Rightarrow> ulong \<Rightarrow> AvantDigitalRead \<Rightarrow> PinInfo \<times> AvantDigitalRead" where
  "detectButtonGestures pinInfo currentTime s =
     (if \<not> eventsEnabled pinInfo then (pinInfo, s)
      else
        (let (p1, s1) = longPressCheck pinInfo currentTime s;
             (p2, s2) = clickCheck p1 currentTime s1
         in singlePressTimeout p2 currentTime s2))"

section \<open>Public operations\<close>

text \<open>
  Every operation takes the state of the object and returns its result with the new
  state. \<^verbatim>\<open>digitalRead\<close> is the hardware: a function from the pin number to the level
  read, given to the operations that sample it. \<^verbatim>\<open>pinMode\<close> configures the hardware
  and leaves the object alone; it has no counterpart here.
\<close>

text \<open>\<open>newPin\<close> is the record that \<^verbatim>\<open>addPin\<close> fills in, given the level read.\<close>

definition newPin :: "int \<Rightarrow> int \<Rightarrow> PinState \<Rightarrow> PinInfo" where
  "newPin p m level =
     \<lparr>pin = p, mode = m,
      currentState = level, lastState = level,
      lastDebounceTime = 0, debounceTime = DEFAULT_DEBOUNCE_TIME,
      eventsEnabled = True,
      onChangeCallback = None, onChangeDelay = 0,
      onRisingCallback = None, onRisingDelay = 0,
      onFallingCallback = None, onFallingDelay = 0,
      onSinglePressCallback = None, onSinglePressDelay = 0,
      onDoublePressCallback = None, onDoublePressDelay = 0,
      onLongPressCallback = None, onLongPressDelay = 0,
      minPressMs = DEFAULT_MIN_PRESS_MS, maxPressMs = DEFAULT_MAX_PRESS_MS,
      maxIntervalMs = DEFAULT_MAX_INTERVAL_MS,
      pressDurationMs = DEFAULT_PRESS_DURATION_MS,
      repeatLongPress = DEFAULT_REPEAT_LONG_PRESS,
      pressStartTime = 0, releaseTime = 0, lastClickTime = 0,
      clickCount = 0, longPressTriggered = False\<rparr>"

definition addPin :: "(int \<Rightarrow> int) \<Rightarrow> int \<Rightarrow> int \<Rightarrow> AvantDigitalRead \<Rightarrow> bool \<times> AvantDigitalRead" where
  "addPin digitalRead p m s =
     (if findPin (pinList s) p \<noteq> None then (False, s)
      else (True, s\<lparr>pinList := pinList s @ [newPin p m (digitalRead p)]\<rparr>))"

text \<open>The loop of \<^verbatim>\<open>removePin\<close>: erase the first record of the pin and stop.\<close>

fun eraseFirst :: "int \<Rightarrow> PinInfo list \<Rightarrow> (PinInfo list) option" where
  "eraseFirst p [] = None"
| "eraseFirst p (it # rest) =
     (if pin it = p then Some rest else map_option (\<lambda>r. it # r) (eraseFirst p rest))"

definition removePin :: "int \<Rightarrow> AvantDigitalRead \<Rightarrow> bool \<times> AvantDigitalRead" where
  "removePin p s =
     (case eraseFirst p (pinList s) of
        Some l \<Rightarrow> (True, s\<lparr>pinList := l\<rparr>)
      | None \<Rightarrow> (False, s))"

definition isInitialized :: "int \<Rightarrow> AvantDigitalRead \<Rightarrow> bool" where
  "isInitialized p s = (findPin (pinList s) p \<noteq> None)"

definition getPinMode :: "int \<Rightarrow> AvantDigitalRead \<Rightarrow> int" where
  "getPinMode p s =
     (case findPin (pinList s) p of None \<Rightarrow> PIN_UNINITIALIZED | Some i \<Rightarrow> mode (pinList s ! i))"

definition readPin :: "int \<Rightarrow> AvantDigitalRead \<Rightarrow> PinState" where
  "readPin p s =
     (case findPin (pinList s) p of
        None \<Rightarrow> PIN_UNINITIALIZED
      | Some i \<Rightarrow> currentState (pinList s ! i))"

text \<open>
  The setters all have one shape: look the pin up, return \<^verbatim>\<open>false\<close> when there is no
  record, else assign the fields through the pointer and return \<^verbatim>\<open>true\<close>.
  \<open>assignPin\<close> is that shape, with the assignments as a function on the record.
\<close>

definition assignPin :: "(PinInfo \<Rightarrow> PinInfo) \<Rightarrow> int \<Rightarrow> AvantDigitalRead \<Rightarrow> bool \<times> AvantDigitalRead" where
  "assignPin f p s =
     (case findPin (pinList s) p of
        None \<Rightarrow> (False, s)
      | Some i \<Rightarrow> (True, s\<lparr>pinList := (pinList s)[i := f (pinList s ! i)]\<rparr>))"

definition setDebounceTime :: "int \<Rightarrow> ulong \<Rightarrow> AvantDigitalRead \<Rightarrow> bool \<times> AvantDigitalRead" where
  "setDebounceTime p debounceMs = assignPin (\<lambda>pinInfo. pinInfo\<lparr>debounceTime := debounceMs\<rparr>) p"

definition getDebounceTime :: "int \<Rightarrow> AvantDigitalRead \<Rightarrow> ulong" where
  "getDebounceTime p s =
     (case findPin (pinList s) p of
        None \<Rightarrow> DEFAULT_DEBOUNCE_TIME
      | Some i \<Rightarrow> debounceTime (pinList s ! i))"

definition onChange :: "int \<Rightarrow> PinCallback \<Rightarrow> ulong \<Rightarrow> AvantDigitalRead \<Rightarrow> bool \<times> AvantDigitalRead" where
  "onChange p cb delay =
     assignPin (\<lambda>pinInfo. pinInfo\<lparr>onChangeCallback := cb, onChangeDelay := delay\<rparr>) p"

definition onRising :: "int \<Rightarrow> PinCallback \<Rightarrow> ulong \<Rightarrow> AvantDigitalRead \<Rightarrow> bool \<times> AvantDigitalRead" where
  "onRising p cb delay =
     assignPin (\<lambda>pinInfo. pinInfo\<lparr>onRisingCallback := cb, onRisingDelay := delay\<rparr>) p"

definition onFalling :: "int \<Rightarrow> PinCallback \<Rightarrow> ulong \<Rightarrow> AvantDigitalRead \<Rightarrow> bool \<times> AvantDigitalRead" where
  "onFalling p cb delay =
     assignPin (\<lambda>pinInfo. pinInfo\<lparr>onFallingCallback := cb, onFallingDelay := delay\<rparr>) p"

definition onSinglePress :: "int \<Rightarrow> PinCallback \<Rightarrow> ulong \<Rightarrow> AvantDigitalRead \<Rightarrow> bool \<times> AvantDigitalRead" where
  "onSinglePress p cb delay =
     assignPin (\<lambda>pinInfo. pinInfo\<lparr>onSinglePressCallback := cb, onSinglePressDelay := delay\<rparr>) p"

definition setClickParameters :: "int \<Rightarrow> ulong \<Rightarrow> ulong \<Rightarrow> AvantDigitalRead \<Rightarrow> bool \<times> AvantDigitalRead" where
  "setClickParameters p minMs maxMs =
     assignPin (\<lambda>pinInfo. pinInfo\<lparr>minPressMs := minMs, maxPressMs := maxMs\<rparr>) p"

definition onDoublePress ::
  "int \<Rightarrow> PinCallback \<Rightarrow> ulong \<Rightarrow> ulong \<Rightarrow> AvantDigitalRead \<Rightarrow> bool \<times> AvantDigitalRead" where
  "onDoublePress p cb delay maxInterval =
     assignPin (\<lambda>pinInfo. pinInfo\<lparr>onDoublePressCallback := cb, onDoublePressDelay := delay,
                                  maxIntervalMs := maxInterval\<rparr>) p"

definition onLongPress ::
  "int \<Rightarrow> PinCallback \<Rightarrow> ulong \<Rightarrow> ulong \<Rightarrow> bool \<Rightarrow> AvantDigitalRead \<Rightarrow> bool \<times> AvantDigitalRead" where
  "onLongPress p cb delay pressDuration repeat =
     assignPin (\<lambda>pinInfo. pinInfo\<lparr>onLongPressCallback := cb, onLongPressDelay := delay,
                                  pressDurationMs := pressDuration,
                                  repeatLongPress := repeat\<rparr>) p"

definition enablePinEvents :: "int \<Rightarrow> AvantDigitalRead \<Rightarrow> bool \<times> AvantDigitalRead" where
  "enablePinEvents p = assignPin (\<lambda>pinInfo. pinInfo\<lparr>eventsEnabled := True\<rparr>) p"

definition disablePinEvents :: "int \<Rightarrow> AvantDigitalRead \<Rightarrow> bool \<times> AvantDigitalRead" where
  "disablePinEvents p = assignPin (\<lambda>pinInfo. pinInfo\<lparr>eventsEnabled := False\<rparr>) p"

definition enableAllEvents :: "AvantDigitalRead \<Rightarrow> AvantDigitalRead" where
  "enableAllEvents s = s\<lparr>pinList := map (\<lambda>pinInfo. pinInfo\<lparr>eventsEnabled := True\<rparr>) (pinList s)\<rparr>"

definition disableAllEvents :: "AvantDigitalRead \<Rightarrow> AvantDigitalRead" where
  "disableAllEvents s = s\<lparr>pinList := map (\<lambda>pinInfo. pinInfo\<lparr>eventsEnabled := False\<rparr>) (pinList s)\<rparr>"

subsection \<open>The update tick\<close>

text \<open>
  The body of the loop of \<^verbatim>\<open>update\<close>, for one pin record, in the source's order:
  \<open>debounceArm\<close> restarts the stability window when the raw reading changed;
  \<open>acceptTransition\<close> is the block run when the reading differs from \<^verbatim>\<open>currentState\<close>
  after the window (new state, press bookkeeping, edge events); \<open>samplePin\<close> is the
  body up to the assignment of \<^verbatim>\<open>lastState\<close>, and \<open>updatePin\<close> the whole body, which
  ends with the call of \<^verbatim>\<open>detectButtonGestures\<close>.
\<close>

definition debounceArm :: "int \<Rightarrow> ulong \<Rightarrow> PinInfo \<Rightarrow> PinInfo" where
  "debounceArm rawReading currentTime pinInfo =
     (if rawReading \<noteq> lastState pinInfo then pinInfo\<lparr>lastDebounceTime := currentTime\<rparr>
      else pinInfo)"

definition acceptTransition :: "int \<Rightarrow> ulong \<Rightarrow> PinInfo \<Rightarrow> AvantDigitalRead \<Rightarrow> PinInfo \<times> AvantDigitalRead" where
  "acceptTransition rawReading currentTime pinInfo s =
     (let previousState = currentState pinInfo;
          p1 = pinInfo\<lparr>currentState := rawReading\<rparr>;
          p2 = (if currentState p1 = PIN_LOW \<and> previousState = PIN_HIGH
                then p1\<lparr>pressStartTime := currentTime, clickCount := clickCount p1 + 1\<rparr>
                else p1)
      in if eventsEnabled p2 then
           (let s1 = (if onChangeCallback p2 \<noteq> None
                      then triggerCallback (onChangeCallback p2) (pin p2) (currentState p2)
                             previousState EVENT_CHANGE currentTime (onChangeDelay p2) s
                      else s);
                s2 = (if currentState p2 = PIN_HIGH \<and> previousState = PIN_LOW \<and>
                         onRisingCallback p2 \<noteq> None
                      then triggerCallback (onRisingCallback p2) (pin p2) (currentState p2)
                             previousState EVENT_RISING currentTime (onRisingDelay p2) s1
                      else s1);
                s3 = (if currentState p2 = PIN_LOW \<and> previousState = PIN_HIGH \<and>
                         onFallingCallback p2 \<noteq> None
                      then triggerCallback (onFallingCallback p2) (pin p2) (currentState p2)
                             previousState EVENT_FALLING currentTime (onFallingDelay p2) s2
                      else s2)
            in (p2, s3))
         else (p2, s))"

definition samplePin :: "(int \<Rightarrow> int) \<Rightarrow> ulong \<Rightarrow> PinInfo \<Rightarrow> AvantDigitalRead \<Rightarrow> PinInfo \<times> AvantDigitalRead" where
  "samplePin digitalRead currentTime pinInfo s =
     (let rawReading = digitalRead (pin pinInfo);
          p1 = debounceArm rawReading currentTime pinInfo;
          (p2, s2) =
            (if currentTime - lastDebounceTime p1 > debounceTime p1 \<and>
                rawReading \<noteq> currentState p1
             then acceptTransition rawReading currentTime p1 s
             else (p1, s))
      in (p2\<lparr>lastState := rawReading\<rparr>, s2))"

definition updatePin :: "(int \<Rightarrow> int) \<Rightarrow> ulong \<Rightarrow> PinInfo \<Rightarrow> AvantDigitalRead \<Rightarrow> PinInfo \<times> AvantDigitalRead" where
  "updatePin digitalRead currentTime pinInfo s =
     (let (p3, s2) = samplePin digitalRead currentTime pinInfo s
      in detectButtonGestures p3 currentTime s2)"

text \<open>The loop over \<^verbatim>\<open>pinList\<close>, in registry order; each record is updated in place.\<close>

fun updatePins ::
  "(int \<Rightarrow> int) \<Rightarrow> ulong \<Rightarrow> PinInfo list \<Rightarrow> AvantDigitalRead \<Rightarrow> PinInfo list \<times> AvantDigitalRead" where
  "updatePins digitalRead currentTime [] s = ([], s)"
| "updatePins digitalRead currentTime (pinInfo # rest) s =
     (let (pinInfo', s1) = updatePin digitalRead currentTime pinInfo s;
          (rest', s2) = updatePins digitalRead currentTime rest s1
      in (pinInfo' # rest', s2))"

text \<open>
  \<^verbatim>\<open>update\<close>, with the value of \<^verbatim>\<open>millis()\<close> and the hardware levels of this tick as
  arguments.
\<close>

definition update :: "(int \<Rightarrow> int) \<Rightarrow> ulong \<Rightarrow> AvantDigitalRead \<Rightarrow> AvantDigitalRead" where
  "update digitalRead currentTime s =
     (let (pins, s1) = updatePins digitalRead currentTime (pinList s) s
      in processDelayedCallbacks currentTime (s1\<lparr>pinList := pins\<rparr>))"

text \<open>A run of ticks: for each, the hardware levels and the clock.\<close>

fun updates :: "((int \<Rightarrow> int) \<times> ulong) list \<Rightarrow> AvantDigitalRead \<Rightarrow> AvantDigitalRead" where
  "updates [] s = s"
| "updates ((digitalRead, currentTime) # ticks) s = updates ticks (update digitalRead currentTime s)"

section \<open>Vocabulary of the properties\<close>

text \<open>
  The public operations that name a pin, as one type, with their results: what a caller
  can do to a pin and what comes back. \<open>perform\<close> only dispatches to the operations
  above.
\<close>

datatype Operation =
    OpRemovePin
  | OpIsInitialized
  | OpGetPinMode
  | OpReadPin
  | OpSetDebounceTime ulong
  | OpGetDebounceTime
  | OpOnChange PinCallback ulong
  | OpOnRising PinCallback ulong
  | OpOnFalling PinCallback ulong
  | OpOnSinglePress PinCallback ulong
  | OpSetClickParameters ulong ulong
  | OpOnDoublePress PinCallback ulong ulong
  | OpOnLongPress PinCallback ulong ulong bool
  | OpEnablePinEvents
  | OpDisablePinEvents

datatype Result = RBool bool | RInt int | RPinState PinState | RULong ulong

definition boolResult :: "bool \<times> AvantDigitalRead \<Rightarrow> Result \<times> AvantDigitalRead" where
  "boolResult r = (RBool (fst r), snd r)"

fun perform :: "Operation \<Rightarrow> int \<Rightarrow> AvantDigitalRead \<Rightarrow> Result \<times> AvantDigitalRead" where
  "perform OpRemovePin p s = boolResult (removePin p s)"
| "perform OpIsInitialized p s = (RBool (isInitialized p s), s)"
| "perform OpGetPinMode p s = (RInt (getPinMode p s), s)"
| "perform OpReadPin p s = (RPinState (readPin p s), s)"
| "perform (OpSetDebounceTime d) p s = boolResult (setDebounceTime p d s)"
| "perform OpGetDebounceTime p s = (RULong (getDebounceTime p s), s)"
| "perform (OpOnChange cb d) p s = boolResult (onChange p cb d s)"
| "perform (OpOnRising cb d) p s = boolResult (onRising p cb d s)"
| "perform (OpOnFalling cb d) p s = boolResult (onFalling p cb d s)"
| "perform (OpOnSinglePress cb d) p s = boolResult (onSinglePress p cb d s)"
| "perform (OpSetClickParameters lo hi) p s = boolResult (setClickParameters p lo hi s)"
| "perform (OpOnDoublePress cb d i) p s = boolResult (onDoublePress p cb d i s)"
| "perform (OpOnLongPress cb d dur r) p s = boolResult (onLongPress p cb d dur r s)"
| "perform OpEnablePinEvents p s = boolResult (enablePinEvents p s)"
| "perform OpDisablePinEvents p s = boolResult (disablePinEvents p s)"

text \<open>The per-pin configuration setters among them.\<close>

fun isSetter :: "Operation \<Rightarrow> bool" where
  "isSetter OpRemovePin = False"
| "isSetter OpIsInitialized = False"
| "isSetter OpGetPinMode = False"
| "isSetter OpReadPin = False"
| "isSetter OpGetDebounceTime = False"
| "isSetter _ = True"

text \<open>
  An event of kind \<open>ev\<close> is raised for pin \<open>p\<close> when \<^verbatim>\<open>triggerCallback\<close> is given a
  callback for it: the callback is then called at once or queued. \<open>firedCount\<close> is the
  number of events raised so far, the calls made plus the entries still queued.
\<close>

definition firedCount :: "int \<Rightarrow> EventType \<Rightarrow> AvantDigitalRead \<Rightarrow> nat" where
  "firedCount p ev s =
     length (filter (\<lambda>c. argPin c = p \<and> argEvent c = ev) (invoked s)) +
     length (filter (\<lambda>d. cbPin d = p \<and> event d = ev) (delayedCallbacks s))"

text \<open>
  One pin over a run of ticks: \<open>runPin\<close> applies the loop body of \<^verbatim>\<open>update\<close> to the
  record of the pin, tick after tick. The record that the body returns does not depend on
  the callback lists (lemma \<open>fst_updatePin\<close> below): \<open>stepPin\<close> is that record, and
  \<open>levels\<close> lists the debounced level \<^verbatim>\<open>currentState\<close> after each tick of a run.
\<close>

fun runPin :: "((int \<Rightarrow> int) \<times> ulong) list \<Rightarrow> PinInfo \<Rightarrow> AvantDigitalRead \<Rightarrow> PinInfo \<times> AvantDigitalRead" where
  "runPin [] p s = (p, s)"
| "runPin ((digitalRead, currentTime) # ticks) p s =
     (let (p', s') = updatePin digitalRead currentTime p s in runPin ticks p' s')"

definition stepPin :: "(int \<Rightarrow> int) \<Rightarrow> ulong \<Rightarrow> PinInfo \<Rightarrow> PinInfo" where
  "stepPin digitalRead currentTime p = fst (updatePin digitalRead currentTime p AvantDigitalRead_init)"

fun levels :: "((int \<Rightarrow> int) \<times> ulong) list \<Rightarrow> PinInfo \<Rightarrow> PinState list" where
  "levels [] p = []"
| "levels ((digitalRead, currentTime) # ticks) p =
     currentState (stepPin digitalRead currentTime p) #
     levels ticks (stepPin digitalRead currentTime p)"

text \<open>
  The same at the public interface: \<open>readings q ticks s\<close> lists what \<^verbatim>\<open>readPin\<close>
  returns for pin \<open>q\<close> after each \<^verbatim>\<open>update\<close> of a run on the registry.
\<close>

fun readings :: "int \<Rightarrow> ((int \<Rightarrow> int) \<times> ulong) list \<Rightarrow> AvantDigitalRead \<Rightarrow> PinState list" where
  "readings q [] s = []"
| "readings q ((digitalRead, currentTime) # ticks) s =
     readPin q (update digitalRead currentTime s) #
     readings q ticks (update digitalRead currentTime s)"

text \<open>
  \<open>raisedFor P s s'\<close>: from \<open>s\<close> to \<open>s'\<close> the list of calls and the queue were only
  extended, and every call and entry added is for a pin of \<open>P\<close>.
\<close>

definition raisedFor :: "int set \<Rightarrow> AvantDigitalRead \<Rightarrow> AvantDigitalRead \<Rightarrow> bool" where
  "raisedFor P s s' \<longleftrightarrow>
     take (length (invoked s)) (invoked s') = invoked s \<and>
     take (length (delayedCallbacks s)) (delayedCallbacks s') = delayedCallbacks s \<and>
     (\<forall>c \<in> set (drop (length (invoked s)) (invoked s')). argPin c \<in> P) \<and>
     (\<forall>d \<in> set (drop (length (delayedCallbacks s)) (delayedCallbacks s')). cbPin d \<in> P)"

text \<open>
  A state with a queued callback for a pin whose events are then disabled: pin 2 is
  registered while it reads HIGH, a change callback with delay 100 is set, the pin reads
  LOW at 1000 and at 1051 (the transition is accepted at 1051 and the callback queued),
  and the events of the pin are disabled.
\<close>

definition disabledWithPending :: AvantDigitalRead where
  "disabledWithPending =
     snd (disablePinEvents 2
       (updates [(\<lambda>_. 0, 1000), (\<lambda>_. 0, 1051)]
         (snd (onChange 2 (Some 1) 100
           (snd (addPin (\<lambda>_. 1) 2 5 AvantDigitalRead_init))))))"

text \<open>
  The same with a second pin whose events stay enabled: pins 2 and 3 are registered while
  they read HIGH, pin 2 with a change callback of delay 100 and pin 3 with one of delay 0;
  both read LOW at 1000 and at 1051, the events of pin 2 are disabled, and both read HIGH
  at 1100. The next tick later than 1150 on which both read HIGH accepts the transition
  to HIGH for both pins.
\<close>

definition disabledBesideEnabled :: AvantDigitalRead where
  "disabledBesideEnabled =
     update (\<lambda>_. 1) 1100
       (snd (disablePinEvents 2
         (updates [(\<lambda>_. 0, 1000), (\<lambda>_. 0, 1051)]
           (snd (onChange 3 (Some 7) 0
             (snd (addPin (\<lambda>_. 1) 3 5
               (snd (onChange 2 (Some 1) 100
                 (snd (addPin (\<lambda>_. 1) 2 5 AvantDigitalRead_init)))))))))))"

text \<open>\<open>pinAfter\<close> is the record of the pin after a run of ticks.\<close>

fun pinAfter :: "((int \<Rightarrow> int) \<times> ulong) list \<Rightarrow> PinInfo \<Rightarrow> PinInfo" where
  "pinAfter [] p = p"
| "pinAfter ((digitalRead, currentTime) # ticks) p = pinAfter ticks (stepPin digitalRead currentTime p)"

text \<open>
  A raw signal that toggles faster than the debounce time \<open>d\<close>: at every tick of the
  run, the time since the tick at which the reading of pin \<open>q\<close> last changed is at most
  \<open>d\<close>. \<open>prev\<close> is the reading before the run and \<open>lastToggle\<close> the time it was
  first read.
\<close>

fun bouncing :: "int \<Rightarrow> ulong \<Rightarrow> int \<Rightarrow> ulong \<Rightarrow> ((int \<Rightarrow> int) \<times> ulong) list \<Rightarrow> bool" where
  "bouncing q d prev lastToggle [] = True"
| "bouncing q d prev lastToggle ((digitalRead, currentTime) # ticks) =
     (let lastToggle' = (if digitalRead q \<noteq> prev then currentTime else lastToggle)
      in currentTime - lastToggle' \<le> d \<and> bouncing q d (digitalRead q) lastToggle' ticks)"




definition bouncyState :: AvantDigitalRead where
  "bouncyState = snd (setDebounceTime 2 2 (snd (addPin (\<lambda>_. 1) 2 5 AvantDigitalRead_init)))"





section \<open>Basic facts\<close>

lemmas PinState_defs = PIN_LOW_def PIN_HIGH_def PIN_UNINITIALIZED_def PIN_ERROR_def

lemmas setter_defs = setDebounceTime_def onChange_def onRising_def onFalling_def
  onSinglePress_def setClickParameters_def onDoublePress_def onLongPress_def
  enablePinEvents_def disablePinEvents_def

lemma findPin_None_iff: "findPin ps p = None \<longleftrightarrow> p \<notin> pin ` set ps"
  by (induction ps) auto

lemma findPin_Some: "findPin ps p = Some i \<Longrightarrow> i < length ps \<and> pin (ps ! i) = p"
  by (induction ps arbitrary: i) (auto split: if_splits)

lemma eraseFirst_None_iff: "eraseFirst p ps = None \<longleftrightarrow> p \<notin> pin ` set ps"
  by (induction ps) auto

lemma eraseFirst_subset: "eraseFirst p ps = Some l \<Longrightarrow> set l \<subseteq> set ps"
  by (induction ps arbitrary: l) (auto split: if_splits)

lemma eraseFirst_Some:
  "eraseFirst p ps = Some l \<Longrightarrow> distinct (map pin ps) \<Longrightarrow>
     p \<notin> pin ` set l \<and> distinct (map pin l)"
proof (induction ps arbitrary: l)
  case Nil
  then show ?case by simp
next
  case (Cons a ps)
  show ?case
  proof (cases "pin a = p")
    case True
    with Cons.prems show ?thesis by auto
  next
    case False
    with Cons.prems obtain r where r: "eraseFirst p ps = Some r" and l: "l = a # r"
      by auto
    from Cons.IH [OF r] Cons.prems have "p \<notin> pin ` set r" and "distinct (map pin r)"
      by auto
    moreover from eraseFirst_subset [OF r] Cons.prems have "pin a \<notin> pin ` set r"
      by auto
    ultimately show ?thesis using False l by auto
  qed
qed

lemma findPin_None_eraseFirst: "findPin ps p = None \<Longrightarrow> eraseFirst p ps = None"
  by (simp add: findPin_None_iff eraseFirst_None_iff)

lemma removePin_unregisters:
  "distinct (map pin (pinList s)) \<Longrightarrow> findPin (pinList (snd (removePin p s))) p = None"
  by (auto simp: removePin_def findPin_None_iff eraseFirst_None_iff
      split: option.splits dest: eraseFirst_Some)

lemma removePin_distinct:
  "distinct (map pin (pinList s)) \<Longrightarrow> distinct (map pin (pinList (snd (removePin p s))))"
  by (auto simp: removePin_def split: option.splits dest: eraseFirst_Some)

lemma assignPin_unregistered: "findPin (pinList s) p = None \<Longrightarrow> assignPin f p s = (False, s)"
  by (simp add: assignPin_def)

lemma perform_setter_unregistered:
  "isSetter op \<Longrightarrow> findPin (pinList s) p = None \<Longrightarrow> perform op p s = (RBool False, s)"
  by (cases op) (simp_all add: boolResult_def setter_defs assignPin_unregistered)

lemma scanDelayed_append:
  "scanDelayed t (xs @ ys) =
     (fst (scanDelayed t xs) @ fst (scanDelayed t ys),
      snd (scanDelayed t xs) @ snd (scanDelayed t ys))"
  by (induction xs) (auto split: prod.splits)

subsection \<open>What each block of the tick does to the record and to the events\<close>

lemma firedCount_triggerCallback:
  "firedCount q e (triggerCallback cb p ns os ev ts d s) =
     firedCount q e s + (if cb \<noteq> None \<and> p = q \<and> ev = e then 1 else 0)"
  by (simp add: firedCount_def triggerCallback_def)

lemma firedCount_fireSinglePress:
  "firedCount q e (fireSinglePress p t s) =
     firedCount q e s +
     (if onSinglePressCallback p \<noteq> None \<and> pin p = q \<and> e = EVENT_SINGLE_PRESS then 1 else 0)"
  by (auto simp: fireSinglePress_def firedCount_triggerCallback)

lemma fst_classifyClick:
  "fst (classifyClick p t s) =
     (if clickCount p = 2 \<and> onDoublePressCallback p \<noteq> None
      then p\<lparr>clickCount := (if t - lastClickTime p \<le> maxIntervalMs p then 0 else 1)\<rparr>
      else if clickCount p = 1 \<and> onDoublePressCallback p = None then p\<lparr>clickCount := 0\<rparr>
      else p)"
  by (simp add: classifyClick_def)

lemma firedCount_classifyClick:
  "firedCount q e (snd (classifyClick p t s)) =
     firedCount q e s +
     (if pin p = q \<and>
         ((e = EVENT_DOUBLE_PRESS \<and> clickCount p = 2 \<and> onDoublePressCallback p \<noteq> None \<and>
             t - lastClickTime p \<le> maxIntervalMs p)
          \<or> (e = EVENT_SINGLE_PRESS \<and> onSinglePressCallback p \<noteq> None \<and>
               ((clickCount p = 2 \<and> onDoublePressCallback p \<noteq> None \<and>
                   \<not> t - lastClickTime p \<le> maxIntervalMs p)
                \<or> (clickCount p = 1 \<and> onDoublePressCallback p = None))))
      then 1 else 0)"
  by (auto simp: classifyClick_def firedCount_triggerCallback firedCount_fireSinglePress)

lemma fst_clickCheck:
  "fst (clickCheck p t s) =
     (if currentState p = PIN_HIGH \<and> 0 < pressStartTime p then
        (if minPressMs p \<le> t - pressStartTime p \<and> t - pressStartTime p \<le> maxPressMs p
         then (fst (classifyClick p t s))\<lparr>lastClickTime := t, pressStartTime := 0\<rparr>
         else if maxPressMs p < t - pressStartTime p
         then p\<lparr>clickCount := 0, pressStartTime := 0\<rparr>
         else p\<lparr>pressStartTime := 0\<rparr>)
      else p)"
  by (simp add: clickCheck_def Let_def split_def)

lemma firedCount_clickCheck:
  "firedCount q e (snd (clickCheck p t s)) =
     (if currentState p = PIN_HIGH \<and> 0 < pressStartTime p \<and>
         minPressMs p \<le> t - pressStartTime p \<and> t - pressStartTime p \<le> maxPressMs p
      then firedCount q e (snd (classifyClick p t s))
      else firedCount q e s)"
  by (simp add: clickCheck_def Let_def split_def)

lemma firedCount_singlePressTimeout:
  "firedCount q e (snd (singlePressTimeout p t s)) =
     firedCount q e s +
     (if pin p = q \<and> e = EVENT_SINGLE_PRESS \<and> onSinglePressCallback p \<noteq> None \<and>
         currentState p = PIN_HIGH \<and> clickCount p = 1 \<and> onDoublePressCallback p \<noteq> None \<and>
         pressStartTime p = 0 \<and> maxIntervalMs p < t - lastClickTime p
      then 1 else 0)"
  by (auto simp: singlePressTimeout_def firedCount_fireSinglePress)

lemma fst_singlePressTimeout:
  "fst (singlePressTimeout p t s) =
     (if currentState p = PIN_HIGH \<and> clickCount p = 1 \<and> onDoublePressCallback p \<noteq> None \<and>
         pressStartTime p = 0 \<and> maxIntervalMs p < t - lastClickTime p
      then p\<lparr>clickCount := 0\<rparr> else p)"
  by (auto simp: singlePressTimeout_def)

lemma fst_longPressCheck:
  "fst (longPressCheck p t s) =
     p\<lparr>longPressTriggered :=
         (if currentState p = PIN_LOW \<and> onLongPressCallback p \<noteq> None
          then longPressTriggered p \<or> pressDurationMs p \<le> t - pressStartTime p
          else False)\<rparr>"
  by (auto simp: longPressCheck_def)

lemma firedCount_longPressCheck:
  "firedCount q e (snd (longPressCheck p t s)) =
     firedCount q e s +
     (if pin p = q \<and> e = EVENT_LONG_PRESS \<and> currentState p = PIN_LOW \<and>
         onLongPressCallback p \<noteq> None \<and> pressDurationMs p \<le> t - pressStartTime p \<and>
         (repeatLongPress p \<or> \<not> longPressTriggered p)
      then 1 else 0)"
  by (auto simp: longPressCheck_def firedCount_triggerCallback)

lemma detectButtonGestures_disabled:
  "\<not> eventsEnabled p \<Longrightarrow> detectButtonGestures p t s = (p, s)"
  by (simp add: detectButtonGestures_def)

lemma detectButtonGestures_enabled:
  "eventsEnabled p \<Longrightarrow>
     detectButtonGestures p t s =
       singlePressTimeout
         (fst (clickCheck (fst (longPressCheck p t s)) t (snd (longPressCheck p t s)))) t
         (snd (clickCheck (fst (longPressCheck p t s)) t (snd (longPressCheck p t s))))"
  by (simp add: detectButtonGestures_def split_def Let_def)

lemma fst_acceptTransition:
  "fst (acceptTransition raw t p s) =
     (if raw = PIN_LOW \<and> currentState p = PIN_HIGH
      then p\<lparr>currentState := raw, pressStartTime := t, clickCount := clickCount p + 1\<rparr>
      else p\<lparr>currentState := raw\<rparr>)"
  by (simp add: acceptTransition_def Let_def)

lemma firedCount_acceptTransition:
  "firedCount q e (snd (acceptTransition raw t p s)) =
     firedCount q e s +
     (if pin p = q \<and> eventsEnabled p \<and>
         ((e = EVENT_CHANGE \<and> onChangeCallback p \<noteq> None)
          \<or> (e = EVENT_RISING \<and> raw = PIN_HIGH \<and> currentState p = PIN_LOW \<and>
               onRisingCallback p \<noteq> None)
          \<or> (e = EVENT_FALLING \<and> raw = PIN_LOW \<and> currentState p = PIN_HIGH \<and>
               onFallingCallback p \<noteq> None))
      then 1 else 0)"
  by (auto simp: acceptTransition_def Let_def firedCount_triggerCallback PIN_LOW_def PIN_HIGH_def)

lemma debounce_window:
  "(debounceTime (debounceArm raw t p) < t - lastDebounceTime (debounceArm raw t p) \<and>
      raw \<noteq> currentState (debounceArm raw t p)) \<longleftrightarrow>
   (raw = lastState p \<and> debounceTime p < t - lastDebounceTime p \<and> raw \<noteq> currentState p)"
  by (auto simp: debounceArm_def)

lemma fst_samplePin:
  "fst (samplePin rd t p s) =
     (if rd (pin p) = lastState p \<and> debounceTime p < t - lastDebounceTime p \<and>
         rd (pin p) \<noteq> currentState p
      then (if rd (pin p) = PIN_LOW \<and> currentState p = PIN_HIGH
            then p\<lparr>currentState := rd (pin p), pressStartTime := t,
                   clickCount := clickCount p + 1\<rparr>
            else p\<lparr>currentState := rd (pin p)\<rparr>)
      else if rd (pin p) = lastState p then p
      else p\<lparr>lastDebounceTime := t, lastState := rd (pin p)\<rparr>)"
  by (auto simp: samplePin_def Let_def split_def debounceArm_def fst_acceptTransition)

lemma firedCount_samplePin:
  "firedCount q e (snd (samplePin rd t p s)) =
     firedCount q e s +
     (if rd (pin p) = lastState p \<and> debounceTime p < t - lastDebounceTime p \<and>
         rd (pin p) \<noteq> currentState p \<and> pin p = q \<and> eventsEnabled p \<and>
         ((e = EVENT_CHANGE \<and> onChangeCallback p \<noteq> None)
          \<or> (e = EVENT_RISING \<and> rd (pin p) = PIN_HIGH \<and> currentState p = PIN_LOW \<and>
               onRisingCallback p \<noteq> None)
          \<or> (e = EVENT_FALLING \<and> rd (pin p) = PIN_LOW \<and> currentState p = PIN_HIGH \<and>
               onFallingCallback p \<noteq> None))
      then 1 else 0)"
  by (auto simp: samplePin_def Let_def split_def debounceArm_def firedCount_acceptTransition)

lemma updatePin_unfold:
  "updatePin rd t p s =
     detectButtonGestures (fst (samplePin rd t p s)) t (snd (samplePin rd t p s))"
  by (simp add: updatePin_def split_def Let_def)

lemma fst_detectButtonGestures_indep:
  "fst (detectButtonGestures p t s) = fst (detectButtonGestures p t s')"
proof (cases "eventsEnabled p")
  case True
  then show ?thesis
    by (simp only: detectButtonGestures_enabled fst_singlePressTimeout fst_clickCheck
        fst_classifyClick fst_longPressCheck)
next
  case False
  then show ?thesis by (simp add: detectButtonGestures_disabled)
qed

lemma fst_samplePin_indep: "fst (samplePin rd t p s) = fst (samplePin rd t p s')"
  by (simp only: fst_samplePin)

lemma fst_updatePin: "fst (updatePin rd t p s) = stepPin rd t p"
  unfolding stepPin_def updatePin_unfold
  using fst_samplePin_indep [of rd t p s AvantDigitalRead_init]
        fst_detectButtonGestures_indep
  by metis

lemma pin_longPressCheck [simp]: "pin (fst (longPressCheck p t s)) = pin p"
  by (simp add: fst_longPressCheck)

lemma pin_classifyClick [simp]: "pin (fst (classifyClick p t s)) = pin p"
  by (simp add: fst_classifyClick)

lemma pin_clickCheck [simp]: "pin (fst (clickCheck p t s)) = pin p"
  by (simp add: fst_clickCheck)

lemma pin_singlePressTimeout [simp]: "pin (fst (singlePressTimeout p t s)) = pin p"
  by (simp add: fst_singlePressTimeout)

lemma pin_samplePin [simp]: "pin (fst (samplePin rd t p s)) = pin p"
  by (simp add: fst_samplePin)

lemma pin_detectButtonGestures [simp]: "pin (fst (detectButtonGestures p t s)) = pin p"
  by (cases "eventsEnabled p")
     (simp_all add: detectButtonGestures_enabled detectButtonGestures_disabled)

lemma pin_stepPin [simp]: "pin (stepPin rd t p) = pin p"
  by (simp add: stepPin_def updatePin_unfold)



subsection \<open>Fields that a tick keeps, and the debounced level\<close>

lemma detectButtonGestures_keeps:
    "pin (fst (detectButtonGestures p t s)) = pin p"
    "mode (fst (detectButtonGestures p t s)) = mode p"
    "debounceTime (fst (detectButtonGestures p t s)) = debounceTime p"
    "eventsEnabled (fst (detectButtonGestures p t s)) = eventsEnabled p"
    "onChangeCallback (fst (detectButtonGestures p t s)) = onChangeCallback p"
    "onChangeDelay (fst (detectButtonGestures p t s)) = onChangeDelay p"
    "onRisingCallback (fst (detectButtonGestures p t s)) = onRisingCallback p"
    "onRisingDelay (fst (detectButtonGestures p t s)) = onRisingDelay p"
    "onFallingCallback (fst (detectButtonGestures p t s)) = onFallingCallback p"
    "onFallingDelay (fst (detectButtonGestures p t s)) = onFallingDelay p"
    "onSinglePressCallback (fst (detectButtonGestures p t s)) = onSinglePressCallback p"
    "onSinglePressDelay (fst (detectButtonGestures p t s)) = onSinglePressDelay p"
    "onDoublePressCallback (fst (detectButtonGestures p t s)) = onDoublePressCallback p"
    "onDoublePressDelay (fst (detectButtonGestures p t s)) = onDoublePressDelay p"
    "onLongPressCallback (fst (detectButtonGestures p t s)) = onLongPressCallback p"
    "onLongPressDelay (fst (detectButtonGestures p t s)) = onLongPressDelay p"
    "minPressMs (fst (detectButtonGestures p t s)) = minPressMs p"
    "maxPressMs (fst (detectButtonGestures p t s)) = maxPressMs p"
    "maxIntervalMs (fst (detectButtonGestures p t s)) = maxIntervalMs p"
    "pressDurationMs (fst (detectButtonGestures p t s)) = pressDurationMs p"
    "repeatLongPress (fst (detectButtonGestures p t s)) = repeatLongPress p"
    "releaseTime (fst (detectButtonGestures p t s)) = releaseTime p"
    "currentState (fst (detectButtonGestures p t s)) = currentState p"
    "lastState (fst (detectButtonGestures p t s)) = lastState p"
    "lastDebounceTime (fst (detectButtonGestures p t s)) = lastDebounceTime p"
  by (cases "eventsEnabled p";
      simp add: detectButtonGestures_enabled detectButtonGestures_disabled
        fst_singlePressTimeout fst_clickCheck fst_classifyClick fst_longPressCheck)+

lemma samplePin_keeps:
    "pin (fst (samplePin rd t p s)) = pin p"
    "mode (fst (samplePin rd t p s)) = mode p"
    "debounceTime (fst (samplePin rd t p s)) = debounceTime p"
    "eventsEnabled (fst (samplePin rd t p s)) = eventsEnabled p"
    "onChangeCallback (fst (samplePin rd t p s)) = onChangeCallback p"
    "onChangeDelay (fst (samplePin rd t p s)) = onChangeDelay p"
    "onRisingCallback (fst (samplePin rd t p s)) = onRisingCallback p"
    "onRisingDelay (fst (samplePin rd t p s)) = onRisingDelay p"
    "onFallingCallback (fst (samplePin rd t p s)) = onFallingCallback p"
    "onFallingDelay (fst (samplePin rd t p s)) = onFallingDelay p"
    "onSinglePressCallback (fst (samplePin rd t p s)) = onSinglePressCallback p"
    "onSinglePressDelay (fst (samplePin rd t p s)) = onSinglePressDelay p"
    "onDoublePressCallback (fst (samplePin rd t p s)) = onDoublePressCallback p"
    "onDoublePressDelay (fst (samplePin rd t p s)) = onDoublePressDelay p"
    "onLongPressCallback (fst (samplePin rd t p s)) = onLongPressCallback p"
    "onLongPressDelay (fst (samplePin rd t p s)) = onLongPressDelay p"
    "minPressMs (fst (samplePin rd t p s)) = minPressMs p"
    "maxPressMs (fst (samplePin rd t p s)) = maxPressMs p"
    "maxIntervalMs (fst (samplePin rd t p s)) = maxIntervalMs p"
    "pressDurationMs (fst (samplePin rd t p s)) = pressDurationMs p"
    "repeatLongPress (fst (samplePin rd t p s)) = repeatLongPress p"
    "releaseTime (fst (samplePin rd t p s)) = releaseTime p"
  by (simp_all add: fst_samplePin)

lemma stepPin_keeps:
    "pin (stepPin rd t p) = pin p"
    "mode (stepPin rd t p) = mode p"
    "debounceTime (stepPin rd t p) = debounceTime p"
    "eventsEnabled (stepPin rd t p) = eventsEnabled p"
    "onChangeCallback (stepPin rd t p) = onChangeCallback p"
    "onChangeDelay (stepPin rd t p) = onChangeDelay p"
    "onRisingCallback (stepPin rd t p) = onRisingCallback p"
    "onRisingDelay (stepPin rd t p) = onRisingDelay p"
    "onFallingCallback (stepPin rd t p) = onFallingCallback p"
    "onFallingDelay (stepPin rd t p) = onFallingDelay p"
    "onSinglePressCallback (stepPin rd t p) = onSinglePressCallback p"
    "onSinglePressDelay (stepPin rd t p) = onSinglePressDelay p"
    "onDoublePressCallback (stepPin rd t p) = onDoublePressCallback p"
    "onDoublePressDelay (stepPin rd t p) = onDoublePressDelay p"
    "onLongPressCallback (stepPin rd t p) = onLongPressCallback p"
    "onLongPressDelay (stepPin rd t p) = onLongPressDelay p"
    "minPressMs (stepPin rd t p) = minPressMs p"
    "maxPressMs (stepPin rd t p) = maxPressMs p"
    "maxIntervalMs (stepPin rd t p) = maxIntervalMs p"
    "pressDurationMs (stepPin rd t p) = pressDurationMs p"
    "repeatLongPress (stepPin rd t p) = repeatLongPress p"
    "releaseTime (stepPin rd t p) = releaseTime p"
  by (simp_all add: stepPin_def updatePin_unfold detectButtonGestures_keeps samplePin_keeps)

lemma currentState_stepPin:
  "currentState (stepPin rd t p) =
     (if rd (pin p) = lastState p \<and> debounceTime p < t - lastDebounceTime p
      then rd (pin p) else currentState p)"
  by (simp add: stepPin_def updatePin_unfold detectButtonGestures_keeps fst_samplePin)

lemma lastState_stepPin: "lastState (stepPin rd t p) = rd (pin p)"
  by (simp add: stepPin_def updatePin_unfold detectButtonGestures_keeps fst_samplePin)

lemma lastDebounceTime_stepPin:
  "lastDebounceTime (stepPin rd t p) =
     (if rd (pin p) \<noteq> lastState p then t else lastDebounceTime p)"
  by (simp add: stepPin_def updatePin_unfold detectButtonGestures_keeps fst_samplePin)

lemma snd_acceptTransition_disabled:
  "\<not> eventsEnabled p \<Longrightarrow> snd (acceptTransition raw t p s) = s"
  by (simp add: acceptTransition_def Let_def)

lemma eventsEnabled_debounceArm [simp]:
  "eventsEnabled (debounceArm raw t p) = eventsEnabled p"
  by (simp add: debounceArm_def)

lemma snd_samplePin_disabled:
  "\<not> eventsEnabled p \<Longrightarrow> snd (samplePin rd t p s) = s"
  by (simp add: samplePin_def Let_def split_def snd_acceptTransition_disabled)

lemma snd_updatePin_disabled:
  "\<not> eventsEnabled p \<Longrightarrow> snd (updatePin rd t p s) = s"
  by (simp add: updatePin_unfold detectButtonGestures_disabled samplePin_keeps
      snd_samplePin_disabled)



lemma disabled_pin_raises_nothing:
  "\<not> eventsEnabled p \<Longrightarrow>
     snd (updatePin rd t p s) = s
   \<and> currentState (fst (updatePin rd t p s)) =
       currentState (fst (updatePin rd t (p\<lparr>eventsEnabled := True\<rparr>) s))
   \<and> currentState (fst (updatePin rd t p s)) =
       (if rd (pin p) = lastState p \<and> debounceTime p < t - lastDebounceTime p
        then rd (pin p) else currentState p)
   \<and> lastState (fst (updatePin rd t p s)) = rd (pin p)
   \<and> lastDebounceTime (fst (updatePin rd t p s)) =
       (if rd (pin p) \<noteq> lastState p then t else lastDebounceTime p)"
  by (simp add: fst_updatePin currentState_stepPin lastState_stepPin lastDebounceTime_stepPin
      snd_updatePin_disabled)

subsection \<open>Which pins a tick raises events for\<close>

lemma raisedFor_iff:
  "raisedFor P s s' \<longleftrightarrow>
     (\<exists>I D. invoked s' = invoked s @ I \<and> delayedCallbacks s' = delayedCallbacks s @ D \<and>
        (\<forall>c \<in> set I. argPin c \<in> P) \<and> (\<forall>d \<in> set D. cbPin d \<in> P))"
proof
  assume r: "raisedFor P s s'"
  let ?I = "drop (length (invoked s)) (invoked s')"
  let ?D = "drop (length (delayedCallbacks s)) (delayedCallbacks s')"
  from r have "invoked s' = invoked s @ ?I" "delayedCallbacks s' = delayedCallbacks s @ ?D"
    unfolding raisedFor_def by (metis append_take_drop_id)+
  with r show "\<exists>I D. invoked s' = invoked s @ I \<and> delayedCallbacks s' = delayedCallbacks s @ D \<and>
        (\<forall>c \<in> set I. argPin c \<in> P) \<and> (\<forall>d \<in> set D. cbPin d \<in> P)"
    unfolding raisedFor_def by blast
next
  assume "\<exists>I D. invoked s' = invoked s @ I \<and> delayedCallbacks s' = delayedCallbacks s @ D \<and>
        (\<forall>c \<in> set I. argPin c \<in> P) \<and> (\<forall>d \<in> set D. cbPin d \<in> P)"
  then show "raisedFor P s s'"
    unfolding raisedFor_def by auto
qed

lemma raisedFor_refl [simp]: "raisedFor P s s"
  by (simp add: raisedFor_def)

lemma raisedFor_trans:
  "raisedFor P s s' \<Longrightarrow> raisedFor Q s' s'' \<Longrightarrow> raisedFor (P \<union> Q) s s''"
  unfolding raisedFor_iff by (elim exE conjE) (simp, blast)

lemma raisedFor_mono: "raisedFor P s s' \<Longrightarrow> P \<subseteq> Q \<Longrightarrow> raisedFor Q s s'"
  unfolding raisedFor_iff by blast

lemma raisedFor_trans_same:
  "raisedFor P s s' \<Longrightarrow> raisedFor P s' s'' \<Longrightarrow> raisedFor P s s''"
  using raisedFor_trans [of P s s' P s''] by simp

lemma raisedFor_triggerCallback:
  "raisedFor {p} s (triggerCallback cb p ns os ev ts d s)"
  by (simp add: raisedFor_def triggerCallback_def)

lemma raisedFor_fireSinglePress: "raisedFor {pin p} s (fireSinglePress p t s)"
  by (simp add: fireSinglePress_def raisedFor_triggerCallback)

lemma raisedFor_longPressCheck: "raisedFor {pin p} s (snd (longPressCheck p t s))"
  by (simp add: longPressCheck_def raisedFor_triggerCallback)

lemma raisedFor_classifyClick: "raisedFor {pin p} s (snd (classifyClick p t s))"
  by (simp add: classifyClick_def raisedFor_triggerCallback raisedFor_fireSinglePress)

lemma raisedFor_clickCheck: "raisedFor {pin p} s (snd (clickCheck p t s))"
  by (simp add: clickCheck_def Let_def split_def raisedFor_classifyClick)

lemma raisedFor_singlePressTimeout: "raisedFor {pin p} s (snd (singlePressTimeout p t s))"
  by (simp add: singlePressTimeout_def raisedFor_fireSinglePress)

lemma raisedFor_detectButtonGestures: "raisedFor {pin p} s (snd (detectButtonGestures p t s))"
proof (cases "eventsEnabled p")
  case True
  have 1: "raisedFor {pin p} s (snd (longPressCheck p t s))"
    by (rule raisedFor_longPressCheck)
  have 2: "raisedFor {pin p} (snd (longPressCheck p t s))
             (snd (clickCheck (fst (longPressCheck p t s)) t (snd (longPressCheck p t s))))"
    using raisedFor_clickCheck [of "fst (longPressCheck p t s)"] by simp
  have 3: "raisedFor {pin p}
             (snd (clickCheck (fst (longPressCheck p t s)) t (snd (longPressCheck p t s))))
             (snd (detectButtonGestures p t s))"
    using raisedFor_singlePressTimeout
            [of "fst (clickCheck (fst (longPressCheck p t s)) t (snd (longPressCheck p t s)))"]
          True
    by (simp add: detectButtonGestures_enabled)
  from 1 2 3 show ?thesis by (blast intro: raisedFor_trans_same)
next
  case False
  then show ?thesis by (simp add: detectButtonGestures_disabled)
qed

lemma raisedFor_acceptTransition:
  "pin p = q \<Longrightarrow> raisedFor {q} s (snd (acceptTransition raw t p s))"
proof -
  assume q: "pin p = q"
  define p2 where "p2 =
    (if currentState (p\<lparr>currentState := raw\<rparr>) = PIN_LOW \<and> currentState p = PIN_HIGH
     then p\<lparr>currentState := raw, pressStartTime := t,
            clickCount := clickCount (p\<lparr>currentState := raw\<rparr>) + 1\<rparr>
     else p\<lparr>currentState := raw\<rparr>)"
  define s1 where "s1 =
    (if onChangeCallback p2 \<noteq> None
     then triggerCallback (onChangeCallback p2) (pin p2) (currentState p2)
            (currentState p) EVENT_CHANGE t (onChangeDelay p2) s
     else s)"
  define s2 where "s2 =
    (if currentState p2 = PIN_HIGH \<and> currentState p = PIN_LOW \<and> onRisingCallback p2 \<noteq> None
     then triggerCallback (onRisingCallback p2) (pin p2) (currentState p2)
            (currentState p) EVENT_RISING t (onRisingDelay p2) s1
     else s1)"
  define s3 where "s3 =
    (if currentState p2 = PIN_LOW \<and> currentState p = PIN_HIGH \<and> onFallingCallback p2 \<noteq> None
     then triggerCallback (onFallingCallback p2) (pin p2) (currentState p2)
            (currentState p) EVENT_FALLING t (onFallingDelay p2) s2
     else s2)"
  have pin2: "pin p2 = q" using q by (simp add: p2_def)
  have r1: "raisedFor {q} s s1"
    using raisedFor_triggerCallback [of q s] by (simp add: s1_def pin2)
  have r2: "raisedFor {q} s1 s2"
    using raisedFor_triggerCallback [of q s1] by (simp add: s2_def pin2)
  have r3: "raisedFor {q} s2 s3"
    using raisedFor_triggerCallback [of q s2] by (simp add: s3_def pin2)
  have "snd (acceptTransition raw t p s) = (if eventsEnabled p2 then s3 else s)"
    unfolding acceptTransition_def Let_def p2_def s1_def s2_def s3_def by simp
  moreover have "raisedFor {q} s s3"
    using r1 r2 r3 by (blast intro: raisedFor_trans_same)
  ultimately show ?thesis by simp
qed

lemma pin_debounceArm [simp]: "pin (debounceArm raw t p) = pin p"
  by (simp add: debounceArm_def)

lemma raisedFor_samplePin: "raisedFor {pin p} s (snd (samplePin rd t p s))"
  by (simp add: samplePin_def Let_def split_def raisedFor_acceptTransition)

lemma raisedFor_updatePin:
  "raisedFor (if eventsEnabled p then {pin p} else {}) s (snd (updatePin rd t p s))"
proof (cases "eventsEnabled p")
  case True
  have "raisedFor {pin p} (snd (samplePin rd t p s)) (snd (updatePin rd t p s))"
    using raisedFor_detectButtonGestures [of "fst (samplePin rd t p s)"]
    by (simp add: updatePin_unfold)
  with raisedFor_samplePin [of p s rd t] True show ?thesis
    by (auto intro: raisedFor_trans_same)
next
  case False
  then show ?thesis by (simp add: snd_updatePin_disabled)
qed

lemma fst_updatePins: "fst (updatePins rd t ps s) = map (stepPin rd t) ps"
  by (induction ps arbitrary: s) (simp_all add: split_def Let_def fst_updatePin)

lemma raisedFor_updatePins:
  "raisedFor {pin p | p. p \<in> set ps \<and> eventsEnabled p} s (snd (updatePins rd t ps s))"
proof (induction ps arbitrary: s)
  case Nil
  show ?case by simp
next
  case (Cons a ps)
  have "raisedFor ((if eventsEnabled a then {pin a} else {}) \<union>
                   {pin p | p. p \<in> set ps \<and> eventsEnabled p}) s
          (snd (updatePins rd t ps (snd (updatePin rd t a s))))"
    by (rule raisedFor_trans [OF raisedFor_updatePin Cons.IH])
  then show ?case
    by (auto simp: split_def Let_def elim!: raisedFor_mono split: if_splits)
qed

lemma pinList_processDelayedCallbacks [simp]:
  "pinList (processDelayedCallbacks t s) = pinList s"
  by (simp add: processDelayedCallbacks_def split_def Let_def)

lemma pinList_update: "pinList (update rd t s) = map (stepPin rd t) (pinList s)"
  by (simp add: update_def split_def Let_def fst_updatePins)

lemma scanDelayed_filter:
  "scanDelayed t xs =
     (filter (\<lambda>it. \<not> executed it \<and> delayMs it \<le> t - timestamp it) xs,
      filter (\<lambda>it. \<not> (\<not> executed it \<and> delayMs it \<le> t - timestamp it)) xs)"
  by (induction xs) (auto split: prod.splits)

lemma filter_argPin_invokeReady:
  "filter (\<lambda>c. argPin c = q) (map (invokeReady t) ds) =
   map (invokeReady t) (filter (\<lambda>d. cbPin d = q) ds)"
  by (induction ds) (simp_all add: invokeReady_def)


subsection \<open>Runs of one pin\<close>


lemma levels_append: "levels (xs @ ys) p = levels xs p @ levels ys (pinAfter xs p)"
  by (induction xs arbitrary: p) auto


lemma pinAfter_keeps:
  "pin (pinAfter ticks p) = pin p"
  "debounceTime (pinAfter ticks p) = debounceTime p"
  by (induction ticks arbitrary: p) (auto simp: stepPin_keeps)

lemma bouncing_levels:
  "bouncing (pin p) (debounceTime p) (lastState p) (lastDebounceTime p) ticks \<Longrightarrow>
     levels ticks p = replicate (length ticks) (currentState p)"
proof (induction ticks arbitrary: p)
  case Nil
  show ?case by simp
next
  case (Cons tk ticks)
  obtain rd t where tk: "tk = (rd, t)" by (cases tk)
  let ?p' = "stepPin rd t p"
  from Cons.prems have win: "t - (if rd (pin p) \<noteq> lastState p then t else lastDebounceTime p) \<le> debounceTime p"
    and rest: "bouncing (pin p) (debounceTime p) (rd (pin p))
                 (if rd (pin p) \<noteq> lastState p then t else lastDebounceTime p) ticks"
    by (simp_all add: tk Let_def)
  from win have cur: "currentState ?p' = currentState p"
    by (auto simp: currentState_stepPin)
  from rest have "bouncing (pin ?p') (debounceTime ?p') (lastState ?p') (lastDebounceTime ?p') ticks"
    by (simp add: stepPin_keeps lastState_stepPin lastDebounceTime_stepPin)
  from Cons.IH [OF this] cur show ?case by (simp add: tk)
qed

lemma stable_window:
  assumes "\<forall>(rd, t) \<in> set ticks. rd (pin p) = lastState p \<and> t - lastDebounceTime p \<le> debounceTime p"
  shows "levels ticks p = replicate (length ticks) (currentState p) \<and>
         currentState (pinAfter ticks p) = currentState p \<and>
         lastState (pinAfter ticks p) = lastState p \<and>
         lastDebounceTime (pinAfter ticks p) = lastDebounceTime p"
  using assms
proof (induction ticks arbitrary: p)
  case Nil
  show ?case by simp
next
  case (Cons tk ticks)
  obtain rd t where tk: "tk = (rd, t)" by (cases tk)
  let ?p' = "stepPin rd t p"
  from Cons.prems have raw: "rd (pin p) = lastState p" and win: "t - lastDebounceTime p \<le> debounceTime p"
    by (simp_all add: tk)
  have p': "currentState ?p' = currentState p" "lastState ?p' = lastState p"
    "lastDebounceTime ?p' = lastDebounceTime p"
    using raw win by (auto simp: currentState_stepPin lastState_stepPin lastDebounceTime_stepPin)
  from Cons.prems have "\<forall>(rd, t) \<in> set ticks. rd (pin ?p') = lastState ?p' \<and>
      t - lastDebounceTime ?p' \<le> debounceTime ?p'"
    by (auto simp: p' stepPin_keeps)
  from Cons.IH [OF this] p' show ?case by (simp add: tk)
qed

lemma settled_levels:
  assumes "\<forall>(rd, t) \<in> set ticks. rd (pin p) = currentState p"
  shows "levels ticks p = replicate (length ticks) (currentState p)"
  using assms
proof (induction ticks arbitrary: p)
  case Nil
  show ?case by simp
next
  case (Cons tk ticks)
  obtain rd t where tk: "tk = (rd, t)" by (cases tk)
  let ?p' = "stepPin rd t p"
  from Cons.prems have raw: "rd (pin p) = currentState p" by (simp add: tk)
  then have cur: "currentState ?p' = currentState p" by (simp add: currentState_stepPin)
  from Cons.prems have "\<forall>(rd, t) \<in> set ticks. rd (pin ?p') = currentState ?p'"
    by (auto simp: cur stepPin_keeps)
  from Cons.IH [OF this] cur show ?case by (simp add: tk)
qed


subsection \<open>What \<^verbatim>\<open>detectButtonGestures\<close> does, by situation\<close>




subsection \<open>One tick of a pin, by situation\<close>












subsection \<open>Runs of ticks at one level\<close>

lemma runPin_Cons:
  "runPin ((rd, t) # ticks) p s = runPin ticks (stepPin rd t p) (snd (updatePin rd t p s))"
  by (simp add: split_def Let_def fst_updatePin)







lemma pinAfter_invariant:
  "(\<And>rd t p. f (stepPin rd t p) = f p) \<Longrightarrow> f (pinAfter ticks p) = f p"
  by (induction ticks arbitrary: p) auto

lemma pinAfter_static:
    "pin (pinAfter ticks p) = pin p"
    "mode (pinAfter ticks p) = mode p"
    "debounceTime (pinAfter ticks p) = debounceTime p"
    "eventsEnabled (pinAfter ticks p) = eventsEnabled p"
    "onChangeCallback (pinAfter ticks p) = onChangeCallback p"
    "onChangeDelay (pinAfter ticks p) = onChangeDelay p"
    "onRisingCallback (pinAfter ticks p) = onRisingCallback p"
    "onRisingDelay (pinAfter ticks p) = onRisingDelay p"
    "onFallingCallback (pinAfter ticks p) = onFallingCallback p"
    "onFallingDelay (pinAfter ticks p) = onFallingDelay p"
    "onSinglePressCallback (pinAfter ticks p) = onSinglePressCallback p"
    "onSinglePressDelay (pinAfter ticks p) = onSinglePressDelay p"
    "onDoublePressCallback (pinAfter ticks p) = onDoublePressCallback p"
    "onDoublePressDelay (pinAfter ticks p) = onDoublePressDelay p"
    "onLongPressCallback (pinAfter ticks p) = onLongPressCallback p"
    "onLongPressDelay (pinAfter ticks p) = onLongPressDelay p"
    "minPressMs (pinAfter ticks p) = minPressMs p"
    "maxPressMs (pinAfter ticks p) = maxPressMs p"
    "maxIntervalMs (pinAfter ticks p) = maxIntervalMs p"
    "pressDurationMs (pinAfter ticks p) = pressDurationMs p"
    "repeatLongPress (pinAfter ticks p) = repeatLongPress p"
    "releaseTime (pinAfter ticks p) = releaseTime p"
  by (rule pinAfter_invariant, rule stepPin_keeps)+

lemma length_levels [simp]: "length (levels ticks p) = length ticks"
  by (induction ticks arbitrary: p) auto




subsection \<open>The events of a pin do not depend on the other pins\<close>

lemma firedCount_clickCheck_add:
  "firedCount q e (snd (clickCheck p t s)) =
     firedCount q e s +
     (if currentState p = PIN_HIGH \<and> 0 < pressStartTime p \<and>
         minPressMs p \<le> t - pressStartTime p \<and> t - pressStartTime p \<le> maxPressMs p \<and>
         pin p = q \<and>
         ((e = EVENT_DOUBLE_PRESS \<and> clickCount p = 2 \<and> onDoublePressCallback p \<noteq> None \<and>
             t - lastClickTime p \<le> maxIntervalMs p)
          \<or> (e = EVENT_SINGLE_PRESS \<and> onSinglePressCallback p \<noteq> None \<and>
               ((clickCount p = 2 \<and> onDoublePressCallback p \<noteq> None \<and>
                   \<not> t - lastClickTime p \<le> maxIntervalMs p)
                \<or> (clickCount p = 1 \<and> onDoublePressCallback p = None))))
      then 1 else 0)"
  unfolding firedCount_clickCheck firedCount_classifyClick by auto

lemma firedCount_detectButtonGestures_shift:
  "firedCount q e (snd (detectButtonGestures p t s)) + firedCount q e s' =
     firedCount q e (snd (detectButtonGestures p t s')) + firedCount q e s"
proof (cases "eventsEnabled p")
  case True
  show ?thesis
    unfolding detectButtonGestures_enabled [OF True]
    unfolding firedCount_singlePressTimeout firedCount_clickCheck_add firedCount_longPressCheck
      fst_clickCheck fst_classifyClick fst_longPressCheck
    by (simp only: add_ac)
next
  case False
  then show ?thesis by (simp add: detectButtonGestures_disabled)
qed

lemma firedCount_updatePin_shift:
  "firedCount q e (snd (updatePin rd t p s)) + firedCount q e s' =
     firedCount q e (snd (updatePin rd t p s')) + firedCount q e s"
proof -
  have "firedCount q e (snd (updatePin rd t p s)) + firedCount q e (snd (samplePin rd t p s')) =
     firedCount q e (snd (updatePin rd t p s')) + firedCount q e (snd (samplePin rd t p s))"
    unfolding updatePin_unfold
    using firedCount_detectButtonGestures_shift
            [of q e "fst (samplePin rd t p s)" t "snd (samplePin rd t p s)" "snd (samplePin rd t p s')"]
          fst_samplePin_indep [of rd t p s s']
    by simp
  then show ?thesis
    unfolding firedCount_samplePin by simp
qed

lemma firedCount_runPin_shift:
  "firedCount q e (snd (runPin ticks p s)) + firedCount q e s' =
     firedCount q e (snd (runPin ticks p s')) + firedCount q e s"
proof (induction ticks arbitrary: p s s')
  case Nil
  show ?case by simp
next
  case (Cons tk ticks)
  obtain rd t where tk: "tk = (rd, t)" by (cases tk)
  from Cons.IH [of "stepPin rd t p" "snd (updatePin rd t p s)" "snd (updatePin rd t p s')"]
       firedCount_updatePin_shift [of q e rd t p s s']
  show ?case
    by (simp add: tk runPin_Cons del: runPin.simps)
qed




lemma firedCount_pinList_update [simp]: "firedCount q e (s\<lparr>pinList := l\<rparr>) = firedCount q e s"
  by (simp add: firedCount_def)



subsection \<open>A run of \<^verbatim>\<open>update\<close> on the registry is, for each pin, a run of its record\<close>

lemma pinList_updates: "pinList (updates ticks s) = map (pinAfter ticks) (pinList s)"
proof (induction ticks arbitrary: s)
  case Nil
  show ?case by (simp add: map_idI)
next
  case (Cons tk ticks)
  obtain rd t where tk: "tk = (rd, t)" by (cases tk)
  show ?case by (simp add: tk Cons.IH pinList_update o_def)
qed




subsection \<open>Pin numbers stay distinct\<close>

lemma assignPin_pins:
  assumes "\<And>x. pin (f x) = pin x"
  shows "map pin (pinList (snd (assignPin f p s))) = map pin (pinList s)"
proof (cases "findPin (pinList s) p")
  case None
  then show ?thesis by (simp add: assignPin_def)
next
  case (Some i)
  from findPin_Some [OF Some] have i: "i < length (pinList s)" by simp
  have "map pin ((pinList s)[i := f (pinList s ! i)]) = (map pin (pinList s))[i := pin (pinList s ! i)]"
    by (simp add: map_update assms)
  also have "\<dots> = (map pin (pinList s))[i := map pin (pinList s) ! i]"
    using i by simp
  also have "\<dots> = map pin (pinList s)"
    by (rule list_update_id)
  finally show ?thesis
    by (simp add: assignPin_def Some)
qed

lemma assignPin_distinct:
  assumes "\<And>x. pin (f x) = pin x" "distinct (map pin (pinList s))"
  shows "distinct (map pin (pinList (snd (assignPin f p s))))"
  using assignPin_pins [of f p s, OF assms(1)] assms(2) by simp

lemma perform_distinct:
  assumes "distinct (map pin (pinList s))"
  shows "distinct (map pin (pinList (snd (perform op p s))))"
proof (cases op)
  case OpRemovePin
  then show ?thesis using removePin_distinct [OF assms] by (simp add: boolResult_def)
qed (simp_all add: boolResult_def setter_defs assignPin_distinct [OF _ assms] assms)

lemma update_pins: "map pin (pinList (update rd t s)) = map pin (pinList s)"
  by (simp add: pinList_update o_def)

lemma findPin_cong: "map pin ps = map pin ps' \<Longrightarrow> findPin ps q = findPin ps' q"
proof (induction ps arbitrary: ps')
  case Nil
  then show ?case by simp
next
  case (Cons a ps)
  then obtain b qs where ps': "ps' = b # qs" by (cases ps') auto
  with Cons.prems have "pin a = pin b" "map pin ps = map pin qs" by simp_all
  with Cons.IH [of qs] show ?case by (simp add: ps')
qed

lemma readPin_updates:
  assumes "findPin (pinList s) q = Some i"
  shows "readPin q (updates ticks s) = currentState (pinAfter ticks (pinList s ! i))"
proof -
  have "map pin (pinList (updates ticks s)) = map pin (pinList s)"
    by (simp add: pinList_updates o_def pinAfter_static)
  from findPin_cong [OF this, of q] assms
  have f: "findPin (pinList (updates ticks s)) q = Some i" by simp
  from findPin_Some [OF assms] have "i < length (pinList s)" by simp
  then have "currentState (pinList (updates ticks s) ! i) =
      currentState (pinAfter ticks (pinList s ! i))"
    by (simp add: pinList_updates)
  then show ?thesis
    unfolding readPin_def f by simp
qed

lemma findPin_update:
  "findPin (pinList (update rd t s)) q = findPin (pinList s) q"
  by (rule findPin_cong) (simp add: update_pins)

lemma readPin_record: "findPin (pinList s) q = Some i \<Longrightarrow> readPin q s = currentState (pinList s ! i)"
  by (simp add: readPin_def)

lemma update_record:
  "findPin (pinList s) q = Some i \<Longrightarrow> pinList (update rd t s) ! i = stepPin rd t (pinList s ! i)"
  using findPin_Some [of "pinList s" q i] by (simp add: pinList_update)

lemma readings_levels:
  "findPin (pinList s) q = Some i \<Longrightarrow> readings q ticks s = levels ticks (pinList s ! i)"
proof (induction ticks arbitrary: s)
  case Nil
  show ?case by simp
next
  case (Cons tk ticks)
  obtain rd t where tk: "tk = (rd, t)" by (cases tk)
  from Cons.prems have f: "findPin (pinList (update rd t s)) q = Some i"
    by (simp add: findPin_update)
  from Cons.IH [OF f] readPin_record [OF f] update_record [OF Cons.prems, of rd t]
  show ?case by (simp add: tk)
qed



subsection \<open>The properties, for the record of one pin\<close>


lemma debounce_run:
  "(bouncing (pin p) (debounceTime p) (lastState p) (lastDebounceTime p) ticks \<longrightarrow>
      levels ticks p = replicate (length ticks) (currentState p))
   \<and> (rd0 (pin p) = r \<and> r \<noteq> lastState p \<and> r \<noteq> currentState p \<and>
       (\<forall>(rd, t) \<in> set held. rd (pin p) = r \<and> t - t0 \<le> debounceTime p) \<and>
       rdN (pin p) = r \<and> debounceTime p < tN - t0 \<and>
       (\<forall>(rd, t) \<in> set later. rd (pin p) = r) \<longrightarrow>
       levels ((rd0, t0) # held @ [(rdN, tN)] @ later) p =
         replicate (Suc (length held)) (currentState p) @ replicate (Suc (length later)) r)"
proof (intro conjI impI)
  assume "bouncing (pin p) (debounceTime p) (lastState p) (lastDebounceTime p) ticks"
  then show "levels ticks p = replicate (length ticks) (currentState p)"
    by (rule bouncing_levels)
next
  assume a: "rd0 (pin p) = r \<and> r \<noteq> lastState p \<and> r \<noteq> currentState p \<and>
       (\<forall>(rd, t) \<in> set held. rd (pin p) = r \<and> t - t0 \<le> debounceTime p) \<and>
       rdN (pin p) = r \<and> debounceTime p < tN - t0 \<and>
       (\<forall>(rd, t) \<in> set later. rd (pin p) = r)"
  let ?p1 = "stepPin rd0 t0 p"
  let ?p2 = "pinAfter held ?p1"
  let ?p3 = "stepPin rdN tN ?p2"
  from a have p1: "currentState ?p1 = currentState p" "lastState ?p1 = r"
    "lastDebounceTime ?p1 = t0" "pin ?p1 = pin p" "debounceTime ?p1 = debounceTime p"
    by (auto simp: currentState_stepPin lastState_stepPin lastDebounceTime_stepPin stepPin_keeps)
  from a have "\<forall>(rd, t) \<in> set held. rd (pin ?p1) = lastState ?p1 \<and>
      t - lastDebounceTime ?p1 \<le> debounceTime ?p1"
    by (auto simp: p1)
  from stable_window [OF this]
  have st: "levels held ?p1 = replicate (length held) (currentState p)"
    and p2: "currentState ?p2 = currentState p" "lastState ?p2 = r" "lastDebounceTime ?p2 = t0"
    by (simp_all add: p1)
  have p2k: "pin ?p2 = pin p" "debounceTime ?p2 = debounceTime p"
    by (simp_all add: pinAfter_keeps p1)
  from a have p3: "currentState ?p3 = r"
    by (simp add: currentState_stepPin p2 p2k)
  from a have "\<forall>(rd, t) \<in> set later. rd (pin ?p3) = currentState ?p3"
    by (auto simp: p3 stepPin_keeps p2k)
  from settled_levels [OF this]
  have lt: "levels later ?p3 = replicate (length later) r"
    by (simp add: p3)
  show "levels ((rd0, t0) # held @ [(rdN, tN)] @ later) p =
         replicate (Suc (length held)) (currentState p) @ replicate (Suc (length later)) r"
    by (simp add: levels_append p1 st p3 lt)
qed




section \<open>The deferred callback scheduler\<close>

text \<open>
  Claim C4. An event with a callback and delay 0 calls the callback at detection, with the
  detection time. With a delay \<open>k > 0\<close> nothing is called at detection; a drain at time
  \<open>t\<close> with \<open>t - detectedAt < k\<close> (unsigned difference; this is every \<open>t\<close> from
  \<open>detectedAt\<close> up to, not including, \<open>detectedAt + k\<close>) leaves the entry queued and
  calls nothing for it; a drain with \<open>t - detectedAt \<ge> k\<close> calls the callback once,
  with \<open>t\<close> as the time stamp, and removes the entry, so that no later drain calls it
  again. The state after the drain is that of the same drain without the event, plus the
  entry or the call.
\<close>

theorem deferred_callback_fires_once_when_due:
  "(k = 0 \<longrightarrow>
      triggerCallback (Some f) p ns os ev t0 k s =
        s\<lparr>invoked := invoked s @
            [\<lparr>fn = Some f, argPin = p, argNewState = ns, argOldState = os,
              argEvent = ev, argTimestamp = t0\<rparr>]\<rparr>)
   \<and> (k \<noteq> 0 \<longrightarrow>
        invoked (triggerCallback (Some f) p ns os ev t0 k s) = invoked s
      \<and> (t - t0 < k \<longrightarrow>
           processDelayedCallbacks t (triggerCallback (Some f) p ns os ev t0 k s) =
             (processDelayedCallbacks t s)
               \<lparr>delayedCallbacks := delayedCallbacks (processDelayedCallbacks t s) @
                  [\<lparr>callback = Some f, cbPin = p, newState = ns, oldState = os, event = ev,
                    timestamp = t0, delayMs = k, executed = False\<rparr>]\<rparr>)
      \<and> (t - t0 \<ge> k \<longrightarrow>
           processDelayedCallbacks t (triggerCallback (Some f) p ns os ev t0 k s) =
             (processDelayedCallbacks t s)
               \<lparr>invoked := invoked (processDelayedCallbacks t s) @
                  [\<lparr>fn = Some f, argPin = p, argNewState = ns, argOldState = os,
                    argEvent = ev, argTimestamp = t\<rparr>]\<rparr>)
      \<and> (unat t0 \<le> unat t \<and> unat t < unat t0 + unat k \<longrightarrow> t - t0 < k))"
proof -
  have nat: "unat t0 \<le> unat t \<and> unat t < unat t0 + unat k \<longrightarrow> t - t0 < k"
    by (auto simp: word_less_nat_alt unat_sub word_le_nat_alt)
  show ?thesis
    using nat
    by (auto simp: triggerCallback_def processDelayedCallbacks_def scanDelayed_append
        invokeReady_def split: prod.splits)
qed

theorem deferred_callback_witness:
  "(100::ulong) \<noteq> 0 \<and> (1099::ulong) - 1000 < 100 \<and> (100::ulong) \<le> 1100 - 1000 \<and>
   invoked (triggerCallback (Some 7) 2 PIN_LOW PIN_HIGH EVENT_FALLING 1000 100
              AvantDigitalRead_init) = [] \<and>
   invoked (processDelayedCallbacks 1099
     (triggerCallback (Some 7) 2 PIN_LOW PIN_HIGH EVENT_FALLING 1000 100
        AvantDigitalRead_init)) = [] \<and>
   invoked (processDelayedCallbacks 1100
     (triggerCallback (Some 7) 2 PIN_LOW PIN_HIGH EVENT_FALLING 1000 100
        AvantDigitalRead_init)) =
     [\<lparr>fn = Some 7, argPin = 2, argNewState = PIN_LOW, argOldState = PIN_HIGH,
       argEvent = EVENT_FALLING, argTimestamp = 1100\<rparr>] \<and>
   delayedCallbacks (processDelayedCallbacks 1100
     (triggerCallback (Some 7) 2 PIN_LOW PIN_HIGH EVENT_FALLING 1000 100
        AvantDigitalRead_init)) = [] \<and>
   invoked (triggerCallback (Some 7) 2 PIN_LOW PIN_HIGH EVENT_FALLING 1000 0
              AvantDigitalRead_init) =
     [\<lparr>fn = Some 7, argPin = 2, argNewState = PIN_LOW, argOldState = PIN_HIGH,
       argEvent = EVENT_FALLING, argTimestamp = 1000\<rparr>]"
  using deferred_callback_fires_once_when_due
          [of 100 7 2 PIN_LOW PIN_HIGH EVENT_FALLING 1000 AvantDigitalRead_init 1099]
        deferred_callback_fires_once_when_due
          [of 100 7 2 PIN_LOW PIN_HIGH EVENT_FALLING 1000 AvantDigitalRead_init 1100]
        deferred_callback_fires_once_when_due
          [of 0 7 2 PIN_LOW PIN_HIGH EVENT_FALLING 1000 AvantDigitalRead_init 1000]
  by (simp add: AvantDigitalRead_init_def processDelayedCallbacks_def triggerCallback_def invokeReady_def)

section \<open>Operations on a pin that is not registered\<close>

text \<open>
  Claim C5, as amended. On a pin without a record, the operations that return a
  \<^verbatim>\<open>bool\<close> return \<^verbatim>\<open>false\<close>, \<^verbatim>\<open>readPin\<close> and \<^verbatim>\<open>getPinMode\<close> return
  \<^verbatim>\<open>PIN_UNINITIALIZED\<close>, and \<^verbatim>\<open>getDebounceTime\<close> returns the default debounce time,
  which is neither of the two.
\<close>

theorem unregistered_pin_results:
  "findPin (pinList s) p = None \<Longrightarrow>
     fst (perform op p s) =
       (case op of
          OpGetDebounceTime \<Rightarrow> RULong DEFAULT_DEBOUNCE_TIME
        | OpGetPinMode \<Rightarrow> RInt PIN_UNINITIALIZED
        | OpReadPin \<Rightarrow> RPinState PIN_UNINITIALIZED
        | _ \<Rightarrow> RBool False)"
  by (cases op)
     (simp_all add: boolResult_def setter_defs assignPin_unregistered removePin_def
        findPin_None_eraseFirst isInitialized_def getPinMode_def readPin_def
        getDebounceTime_def)

theorem unregistered_pin_results_witness:
  "findPin (pinList AvantDigitalRead_init) 5 = None \<and>
   fst (perform OpReadPin 5 AvantDigitalRead_init) = RPinState (- 1) \<and>
   fst (perform (OpSetDebounceTime 10) 5 AvantDigitalRead_init) = RBool False"
  using unregistered_pin_results [of AvantDigitalRead_init 5 OpReadPin]
        unregistered_pin_results [of AvantDigitalRead_init 5 "OpSetDebounceTime 10"]
  by (simp add: AvantDigitalRead_init_def PIN_UNINITIALIZED_def)

text \<open>
  The claim as stated fails: \<^verbatim>\<open>getDebounceTime\<close> on a pin that was never registered
  returns 50, which is neither \<^verbatim>\<open>false\<close> nor the sentinel.
\<close>

theorem getDebounceTime_unregistered_counterexample:
  "findPin (pinList AvantDigitalRead_init) 5 = None \<and>
   fst (perform OpGetDebounceTime 5 AvantDigitalRead_init) = RULong 50 \<and>
   RULong 50 \<noteq> RBool False \<and> RULong 50 \<noteq> RPinState PIN_UNINITIALIZED \<and>
   RULong 50 \<noteq> RInt PIN_UNINITIALIZED"
  by (simp add: AvantDigitalRead_init_def getDebounceTime_def DEFAULT_DEBOUNCE_TIME_def)

section \<open>The registry\<close>

text \<open>
  Claim C9. \<^verbatim>\<open>addPin\<close> on a registered pin returns \<^verbatim>\<open>false\<close> and changes nothing.
  Pin numbers are distinct in the empty registry and stay distinct under \<^verbatim>\<open>addPin\<close>,
  every operation on a pin, \<^verbatim>\<open>update\<close> and the two global switches: at most one record
  per pin. Every setter on an unregistered pin returns \<^verbatim>\<open>false\<close> and leaves the whole
  state as it was, and this is the case of a pin that has just been removed.
\<close>

theorem registry_rejects_duplicates_and_unknown_pins:
  "(findPin (pinList s) p \<noteq> None \<longrightarrow> addPin rd p m s = (False, s))
   \<and> (distinct (map pin (pinList s)) \<longrightarrow>
        distinct (map pin (pinList (snd (addPin rd p m s)))) \<and>
        distinct (map pin (pinList (snd (perform op p s)))) \<and>
        distinct (map pin (pinList (update rd t s))) \<and>
        distinct (map pin (pinList (enableAllEvents s))) \<and>
        distinct (map pin (pinList (disableAllEvents s))))
   \<and> (isSetter op \<and> findPin (pinList s) p = None \<longrightarrow> perform op p s = (RBool False, s))
   \<and> (isSetter op \<and> distinct (map pin (pinList s)) \<longrightarrow>
        perform op p (snd (removePin p s)) = (RBool False, snd (removePin p s)))"
proof -
  have 1: "findPin (pinList s) p \<noteq> None \<longrightarrow> addPin rd p m s = (False, s)"
    by (simp add: addPin_def)
  have 2: "distinct (map pin (pinList s)) \<longrightarrow>
      distinct (map pin (pinList (snd (addPin rd p m s))))"
    by (auto simp: addPin_def newPin_def findPin_None_iff)
  have 3: "distinct (map pin (pinList s)) \<longrightarrow>
      distinct (map pin (pinList (snd (perform op p s))))"
    by (simp add: perform_distinct)
  have 4: "distinct (map pin (pinList s)) \<longrightarrow> distinct (map pin (pinList (update rd t s)))"
    by (simp add: update_pins)
  have 5: "distinct (map pin (pinList s)) \<longrightarrow>
      distinct (map pin (pinList (enableAllEvents s))) \<and>
      distinct (map pin (pinList (disableAllEvents s)))"
    by (simp add: enableAllEvents_def disableAllEvents_def o_def)
  have 6: "isSetter op \<and> findPin (pinList s) p = None \<longrightarrow> perform op p s = (RBool False, s)"
    by (simp add: perform_setter_unregistered)
  have 7: "isSetter op \<and> distinct (map pin (pinList s)) \<longrightarrow>
      perform op p (snd (removePin p s)) = (RBool False, snd (removePin p s))"
    by (simp add: perform_setter_unregistered removePin_unregisters)
  from 1 2 3 4 5 6 7 show ?thesis by blast
qed

theorem registry_witness:
  "findPin (pinList (snd (addPin (\<lambda>_. 1) 4 5 AvantDigitalRead_init))) 4 \<noteq> None \<and>
   distinct (map pin (pinList (snd (addPin (\<lambda>_. 1) 4 5 AvantDigitalRead_init)))) \<and>
   isSetter (OpSetDebounceTime 10) \<and>
   findPin (pinList (snd (addPin (\<lambda>_. 1) 4 5 AvantDigitalRead_init))) 9 = None \<and>
   fst (addPin (\<lambda>_. 0) 4 1 (snd (addPin (\<lambda>_. 1) 4 5 AvantDigitalRead_init))) = False \<and>
   snd (addPin (\<lambda>_. 0) 4 1 (snd (addPin (\<lambda>_. 1) 4 5 AvantDigitalRead_init))) =
     snd (addPin (\<lambda>_. 1) 4 5 AvantDigitalRead_init) \<and>
   perform (OpSetDebounceTime 10) 9 (snd (addPin (\<lambda>_. 1) 4 5 AvantDigitalRead_init)) =
     (RBool False, snd (addPin (\<lambda>_. 1) 4 5 AvantDigitalRead_init)) \<and>
   perform (OpSetDebounceTime 10) 4
       (snd (removePin 4 (snd (addPin (\<lambda>_. 1) 4 5 AvantDigitalRead_init)))) =
     (RBool False, AvantDigitalRead_init)"
  using registry_rejects_duplicates_and_unknown_pins
          [where s = "snd (addPin (\<lambda>_. 1) 4 5 AvantDigitalRead_init)" and p = 4
             and rd = "\<lambda>_. 0" and m = 1 and op = "OpSetDebounceTime 10" and t = 0]
        registry_rejects_duplicates_and_unknown_pins
          [where s = "snd (addPin (\<lambda>_. 1) 4 5 AvantDigitalRead_init)" and p = 9
             and rd = "\<lambda>_. 0" and m = 1 and op = "OpSetDebounceTime 10" and t = 0]
  by (simp add: AvantDigitalRead_init_def addPin_def newPin_def removePin_def)

section \<open>Edge events\<close>



section \<open>Disabled events\<close>

text \<open>
  Claim C2, as amended. When every record of pin \<open>q\<close> has \<^verbatim>\<open>eventsEnabled\<close> false at
  a tick, the tick raises no event for \<open>q\<close> and the drain still serves it. The calls
  made before the tick are kept. The calls made during the tick for \<open>q\<close> are exactly,
  and in the order of the queue, the entries for \<open>q\<close> that were queued before the tick
  and are due at it (not executed and \<^verbatim>\<open>currentTime - timestamp >= delayMs\<close>), each called once
  with the time of the tick: none is added by the tick and none that is due is left out,
  whatever the flag says. The entries for \<open>q\<close> left in the queue are exactly the
  earlier ones that are not due: nothing is queued for \<open>q\<close>. Debouncing runs for
  every pin, enabled or not: \<^verbatim>\<open>currentState\<close> becomes the raw reading when the reading
  is that of the last tick and has been stable for longer than \<^verbatim>\<open>debounceTime\<close>.
\<close>

theorem disabled_pin_tick:
  assumes off: "\<forall>p \<in> set (pinList s). pin p = q \<longrightarrow> \<not> eventsEnabled p"
  shows "take (length (invoked s)) (invoked (update rd t s)) = invoked s
    \<and> filter (\<lambda>c. argPin c = q) (drop (length (invoked s)) (invoked (update rd t s))) =
        map (invokeReady t)
          (filter (\<lambda>d. cbPin d = q \<and> \<not> executed d \<and> delayMs d \<le> t - timestamp d)
            (delayedCallbacks s))
    \<and> filter (\<lambda>d. cbPin d = q) (delayedCallbacks (update rd t s)) =
        filter (\<lambda>d. cbPin d = q \<and> (executed d \<or> t - timestamp d < delayMs d))
          (delayedCallbacks s)
    \<and> map currentState (pinList (update rd t s)) =
        map (\<lambda>p. if rd (pin p) = lastState p \<and> debounceTime p < t - lastDebounceTime p
                  then rd (pin p) else currentState p) (pinList s)"
proof -
  let ?P = "{pin p | p. p \<in> set (pinList s) \<and> eventsEnabled p}"
  let ?s1 = "snd (updatePins rd t (pinList s) s)"
  let ?due = "\<lambda>it. \<not> executed it \<and> delayMs it \<le> t - timestamp it"
  from off have qP: "q \<notin> ?P" by auto
  from raisedFor_updatePins [of "pinList s" s rd t]
  obtain I D where I: "invoked ?s1 = invoked s @ I"
    and D: "delayedCallbacks ?s1 = delayedCallbacks s @ D"
    and IP: "\<forall>c \<in> set I. argPin c \<in> ?P" and DP: "\<forall>d \<in> set D. cbPin d \<in> ?P"
    unfolding raisedFor_iff by blast
  from IP qP have Iq: "filter (\<lambda>c. argPin c = q) I = []"
    by (auto simp: filter_empty_conv)
  from DP qP have Dq: "filter (\<lambda>d. cbPin d = q) D = []"
    by (auto simp: filter_empty_conv)
  have inv: "invoked (update rd t s) =
      invoked s @ I @ map (invokeReady t) (filter ?due (delayedCallbacks s @ D))"
    by (simp add: update_def split_def Let_def processDelayedCallbacks_def scanDelayed_filter I D)
  have del: "delayedCallbacks (update rd t s) =
      filter (\<lambda>it. \<not> ?due it) (delayedCallbacks s @ D)"
    by (simp add: update_def split_def Let_def processDelayedCallbacks_def scanDelayed_filter D)
  have 1: "take (length (invoked s)) (invoked (update rd t s)) = invoked s"
    by (simp add: inv)
  have Dq_due: "filter (\<lambda>d. cbPin d = q) (filter ?due D) = []"
    using Dq by (auto simp: filter_empty_conv)
  have Dq_kept: "filter (\<lambda>d. cbPin d = q) (filter (\<lambda>it. \<not> ?due it) D) = []"
    using Dq by (auto simp: filter_empty_conv)
  have 2: "filter (\<lambda>c. argPin c = q) (drop (length (invoked s)) (invoked (update rd t s))) =
        map (invokeReady t)
          (filter (\<lambda>d. cbPin d = q \<and> \<not> executed d \<and> delayMs d \<le> t - timestamp d)
            (delayedCallbacks s))"
  proof -
    have "drop (length (invoked s)) (invoked (update rd t s)) =
        I @ map (invokeReady t) (filter ?due (delayedCallbacks s))
          @ map (invokeReady t) (filter ?due D)"
      by (simp add: inv)
    then have "filter (\<lambda>c. argPin c = q) (drop (length (invoked s)) (invoked (update rd t s))) =
        filter (\<lambda>c. argPin c = q) I
          @ map (invokeReady t) (filter (\<lambda>d. cbPin d = q) (filter ?due (delayedCallbacks s)))
          @ map (invokeReady t) (filter (\<lambda>d. cbPin d = q) (filter ?due D))"
      by (simp only: filter_append filter_argPin_invokeReady)
    also have "\<dots> =
        map (invokeReady t) (filter (\<lambda>d. cbPin d = q) (filter ?due (delayedCallbacks s)))"
      by (simp only: Iq Dq_due list.map append_Nil append_Nil2)
    also have "filter (\<lambda>d. cbPin d = q) (filter ?due (delayedCallbacks s)) =
        filter (\<lambda>d. cbPin d = q \<and> \<not> executed d \<and> delayMs d \<le> t - timestamp d)
          (delayedCallbacks s)"
      by (simp only: filter_filter, rule filter_cong, auto)
    finally show ?thesis .
  qed
  have 3: "filter (\<lambda>d. cbPin d = q) (delayedCallbacks (update rd t s)) =
        filter (\<lambda>d. cbPin d = q \<and> (executed d \<or> t - timestamp d < delayMs d))
          (delayedCallbacks s)"
  proof -
    have "filter (\<lambda>d. cbPin d = q) (delayedCallbacks (update rd t s)) =
        filter (\<lambda>d. cbPin d = q) (filter (\<lambda>it. \<not> ?due it) (delayedCallbacks s))
          @ filter (\<lambda>d. cbPin d = q) (filter (\<lambda>it. \<not> ?due it) D)"
      by (simp only: del filter_append)
    also have "\<dots> =
        filter (\<lambda>d. cbPin d = q) (filter (\<lambda>it. \<not> ?due it) (delayedCallbacks s))"
      by (simp only: Dq_kept append_Nil2)
    also have "\<dots> = filter (\<lambda>d. cbPin d = q \<and> (executed d \<or> t - timestamp d < delayMs d))
          (delayedCallbacks s)"
      by (simp only: filter_filter, rule filter_cong, auto simp: not_le)
    finally show ?thesis .
  qed
  have 4: "map currentState (pinList (update rd t s)) =
        map (\<lambda>p. if rd (pin p) = lastState p \<and> debounceTime p < t - lastDebounceTime p
                  then rd (pin p) else currentState p) (pinList s)"
    by (simp add: pinList_update currentState_stepPin o_def)
  from 1 2 3 4 show ?thesis by blast
qed

text \<open>
  In \<open>disabledBesideEnabled\<close> the tick at 1151 on which both pins read HIGH accepts
  the transition for both. It makes two calls: the change callback of pin 3, raised by the
  tick, and the change callback of pin 2 queued at 1051, due at 1151. The only call for
  pin 2 is the queued one, its entry leaves the queue, and \<^verbatim>\<open>currentState\<close> of pin 2 goes
  from LOW to HIGH without an event.
\<close>

theorem disabled_pin_tick_witness:
  "map pin (pinList disabledBesideEnabled) = [2, 3] \<and>
   map eventsEnabled (pinList disabledBesideEnabled) = [False, True] \<and>
   map currentState (pinList disabledBesideEnabled) = [PIN_LOW, PIN_LOW] \<and>
   delayedCallbacks disabledBesideEnabled =
     [\<lparr>callback = Some 1, cbPin = 2, newState = PIN_LOW, oldState = PIN_HIGH,
       event = EVENT_CHANGE, timestamp = 1051, delayMs = 100, executed = False\<rparr>] \<and>
   take (length (invoked disabledBesideEnabled))
     (invoked (update (\<lambda>_. 1) 1151 disabledBesideEnabled)) = invoked disabledBesideEnabled \<and>
   drop (length (invoked disabledBesideEnabled))
     (invoked (update (\<lambda>_. 1) 1151 disabledBesideEnabled)) =
     [\<lparr>fn = Some 7, argPin = 3, argNewState = PIN_HIGH, argOldState = PIN_LOW,
       argEvent = EVENT_CHANGE, argTimestamp = 1151\<rparr>,
      \<lparr>fn = Some 1, argPin = 2, argNewState = PIN_LOW, argOldState = PIN_HIGH,
       argEvent = EVENT_CHANGE, argTimestamp = 1151\<rparr>] \<and>
   filter (\<lambda>c. argPin c = 2)
     (drop (length (invoked disabledBesideEnabled))
       (invoked (update (\<lambda>_. 1) 1151 disabledBesideEnabled))) =
     [\<lparr>fn = Some 1, argPin = 2, argNewState = PIN_LOW, argOldState = PIN_HIGH,
       argEvent = EVENT_CHANGE, argTimestamp = 1151\<rparr>] \<and>
   filter (\<lambda>d. cbPin d = 2)
     (delayedCallbacks (update (\<lambda>_. 1) 1151 disabledBesideEnabled)) = [] \<and>
   map currentState (pinList (update (\<lambda>_. 1) 1151 disabledBesideEnabled)) =
     [PIN_HIGH, PIN_HIGH]"
proof -
  have h: "\<forall>p \<in> set (pinList disabledBesideEnabled). pin p = 2 \<longrightarrow> \<not> eventsEnabled p"
    by code_simp
  have e: "map pin (pinList disabledBesideEnabled) = [2, 3]"
    "map eventsEnabled (pinList disabledBesideEnabled) = [False, True]"
    "map currentState (pinList disabledBesideEnabled) = [PIN_LOW, PIN_LOW]"
    "delayedCallbacks disabledBesideEnabled =
     [\<lparr>callback = Some 1, cbPin = 2, newState = PIN_LOW, oldState = PIN_HIGH,
       event = EVENT_CHANGE, timestamp = 1051, delayMs = 100, executed = False\<rparr>]"
    "drop (length (invoked disabledBesideEnabled))
     (invoked (update (\<lambda>_. 1) 1151 disabledBesideEnabled)) =
     [\<lparr>fn = Some 7, argPin = 3, argNewState = PIN_HIGH, argOldState = PIN_LOW,
       argEvent = EVENT_CHANGE, argTimestamp = 1151\<rparr>,
      \<lparr>fn = Some 1, argPin = 2, argNewState = PIN_LOW, argOldState = PIN_HIGH,
       argEvent = EVENT_CHANGE, argTimestamp = 1151\<rparr>]"
    by code_simp+
  have r: "map (invokeReady 1151)
          (filter (\<lambda>d. cbPin d = 2 \<and> \<not> executed d \<and> delayMs d \<le> 1151 - timestamp d)
            (delayedCallbacks disabledBesideEnabled)) =
     [\<lparr>fn = Some 1, argPin = 2, argNewState = PIN_LOW, argOldState = PIN_HIGH,
       argEvent = EVENT_CHANGE, argTimestamp = 1151\<rparr>]"
    "filter (\<lambda>d. cbPin d = 2 \<and> (executed d \<or> 1151 - timestamp d < delayMs d))
          (delayedCallbacks disabledBesideEnabled) = []"
    "map (\<lambda>p. if (\<lambda>_. 1) (pin p) = lastState p \<and> debounceTime p < 1151 - lastDebounceTime p
                  then (\<lambda>_. 1) (pin p) else currentState p) (pinList disabledBesideEnabled) =
     [PIN_HIGH, PIN_HIGH]"
    by code_simp+
  note t = disabled_pin_tick [OF h, of "\<lambda>_. 1" 1151]
  from t e show ?thesis by (simp only: r) simp
qed

text \<open>
  The claim as stated fails: in the state \<open>disabledWithPending\<close> the events of pin 2
  are disabled and nothing has been called; the tick at 1151 calls the change callback of
  pin 2, queued at 1051 with delay 100.
\<close>

theorem disabled_pin_pending_counterexample:
  "map eventsEnabled (pinList disabledWithPending) = [False] \<and>
   invoked disabledWithPending = [] \<and>
   invoked (update (\<lambda>_. 0) 1151 disabledWithPending) =
     [\<lparr>fn = Some 1, argPin = 2, argNewState = PIN_LOW, argOldState = PIN_HIGH,
       argEvent = EVENT_CHANGE, argTimestamp = 1151\<rparr>]"
  by code_simp

section \<open>Debouncing\<close>

text \<open>
  Claim C3. For a registered pin \<open>q\<close> with record \<open>p\<close> and the states that
  \<^verbatim>\<open>readPin\<close> returns after each \<^verbatim>\<open>update\<close> of a run: (1) while the raw signal toggles
  faster than \<^verbatim>\<open>debounceTime\<close>, no transition is accepted, the state stays what it was;
  (2) when the signal toggles at \<open>t0\<close> to a level \<open>r\<close> other than the current state and
  is then held, no tick up to \<open>t0 + debounceTime\<close> accepts it, the first tick later than
  that does (for ticks one millisecond apart, tick number \<open>debounceTime + 1\<close> after the
  toggle), and no tick after it changes the state again while the level is held: one
  accepted transition. Times are compared by their unsigned difference, as the code does.
\<close>

theorem debounce_rejects_bounce_accepts_stable:
  assumes "findPin (pinList s) q = Some i" "p = pinList s ! i"
  shows "(bouncing q (debounceTime p) (lastState p) (lastDebounceTime p) ticks \<longrightarrow>
            readings q ticks s = replicate (length ticks) (readPin q s))
       \<and> (rd0 q = r \<and> r \<noteq> lastState p \<and> r \<noteq> readPin q s \<and>
           (\<forall>(rd, t) \<in> set held. rd q = r \<and> t - t0 \<le> debounceTime p) \<and>
           rdN q = r \<and> debounceTime p < tN - t0 \<and>
           (\<forall>(rd, t) \<in> set later. rd q = r) \<longrightarrow>
           readings q ((rd0, t0) # held @ [(rdN, tN)] @ later) s =
             replicate (Suc (length held)) (readPin q s) @ replicate (Suc (length later)) r)"
proof -
  from findPin_Some [OF assms(1)] assms(2) have q: "pin p = q" by simp
  show ?thesis
    using debounce_run [of p ticks rd0 r held t0 rdN tN later]
    unfolding readings_levels [OF assms(1)] readPin_record [OF assms(1)]
      assms(2) [symmetric] q .
qed

theorem debounce_witness:
  "findPin (pinList bouncyState) 2 = Some 0 \<and> readPin 2 bouncyState = PIN_HIGH \<and>
   debounceTime (pinList bouncyState ! 0) = 2 \<and>
   bouncing 2 2 PIN_HIGH 0 [(\<lambda>_. 0, 100), (\<lambda>_. 1, 101), (\<lambda>_. 0, 102), (\<lambda>_. 0, 104)] \<and>
   readings 2 [(\<lambda>_. 0, 100), (\<lambda>_. 1, 101), (\<lambda>_. 0, 102), (\<lambda>_. 0, 104)] bouncyState =
     [PIN_HIGH, PIN_HIGH, PIN_HIGH, PIN_HIGH] \<and>
   readings 2 [(\<lambda>_. 0, 100), (\<lambda>_. 0, 101), (\<lambda>_. 0, 102), (\<lambda>_. 0, 103), (\<lambda>_. 0, 104)]
       bouncyState =
     [PIN_HIGH, PIN_HIGH, PIN_HIGH, PIN_LOW, PIN_LOW]"
proof -
  let ?p = "pinList bouncyState ! 0"
  have f: "findPin (pinList bouncyState) 2 = Some 0" by code_simp
  have p: "debounceTime ?p = 2" "lastState ?p = PIN_HIGH"
    "lastDebounceTime ?p = 0" "readPin 2 bouncyState = PIN_HIGH"
    by code_simp+
  have b: "bouncing 2 2 PIN_HIGH 0 [(\<lambda>_. 0, 100), (\<lambda>_. 1, 101), (\<lambda>_. 0, 102), (\<lambda>_. 0, 104)]"
    by (simp add: PIN_HIGH_def)
  have h: "(\<lambda>_. 0) (2 :: int) = PIN_LOW \<and> PIN_LOW \<noteq> lastState ?p \<and>
       PIN_LOW \<noteq> readPin 2 bouncyState \<and>
       (\<forall>(rd, t) \<in> set [(\<lambda>_. 0, 101), (\<lambda>_. 0, 102)].
           rd (2 :: int) = PIN_LOW \<and> t - 100 \<le> debounceTime ?p) \<and>
       (\<lambda>_. 0) (2 :: int) = PIN_LOW \<and> debounceTime ?p < 103 - 100 \<and>
       (\<forall>(rd, t) \<in> set [(\<lambda>_. 0, 104 :: ulong)]. rd (2 :: int) = PIN_LOW)"
    by (simp add: p PIN_LOW_def PIN_HIGH_def)
  from debounce_rejects_bounce_accepts_stable
         [OF f refl, of "[(\<lambda>_. 0, 100), (\<lambda>_. 1, 101), (\<lambda>_. 0, 102), (\<lambda>_. 0, 104)]"
             "\<lambda>_. 0" PIN_LOW "[(\<lambda>_. 0, 101), (\<lambda>_. 0, 102)]" 100 "\<lambda>_. 0" 103 "[(\<lambda>_. 0, 104)]"]
       b h f
  show ?thesis by (simp add: p)
qed

section \<open>Double press\<close>




section \<open>Long press\<close>



section \<open>Single press after the double-press window\<close>



section \<open>Long press of a pin registered while pressed\<close>



end
